theory Spec2Isabelle
  imports Complex_Main "HOL-Library.Sublist"
begin

section \<open>Strings\<close>

text \<open>
  Text is a list of characters, and a character is one of the 256 code points from U+0000
  to U+00FF; text with a character beyond them has no counterpart in the model. The
  whitespace characters are those of these code points for which Python's \<^verbatim>\<open>str.isspace\<close>
  holds, the next-line and the no-break space characters among them; they are what
  \<^verbatim>\<open>str.strip()\<close> removes and what the regular expression classes \<^verbatim>\<open>\s\<close> and \<^verbatim>\<open>\S\<close> tell
  apart.
\<close>

definition isspace :: "char \<Rightarrow> bool" where
  "isspace c = (c \<in> set [CHR 0x09, CHR 0x0A, CHR 0x0B, CHR 0x0C, CHR 0x0D,
                          CHR 0x1C, CHR 0x1D, CHR 0x1E, CHR 0x1F, CHR 0x20,
                          CHR 0x85, CHR 0xA0])"

definition strip :: "string \<Rightarrow> string" where
  "strip s = rev (dropWhile isspace (rev (dropWhile isspace s)))"

text \<open>\<^verbatim>\<open>sep.join(xs)\<close>.\<close>

fun join :: "string \<Rightarrow> string list \<Rightarrow> string" where
  "join sep [] = []"
| "join sep [x] = x"
| "join sep (x # y # ys) = x @ sep @ join sep (y # ys)"

text \<open>\<^verbatim>\<open>sub in s\<close> on strings, which is also what \<^verbatim>\<open>re.compile(sub).search(s)\<close> decides
  for a pattern without special characters.\<close>

fun contains :: "string \<Rightarrow> string \<Rightarrow> bool" where
  "contains sub [] = (sub = [])"
| "contains sub (c # cs) = (prefix sub (c # cs) \<or> contains sub cs)"

text \<open>The maximal runs of non-whitespace characters (\<^verbatim>\<open>re.findall(r"\S+", s)\<close>); \<open>cur\<close> is
  the run being read, reversed.\<close>

fun nonwhitespace :: "string \<Rightarrow> string \<Rightarrow> string list" where
  "nonwhitespace cur [] = (if cur = [] then [] else [rev cur])"
| "nonwhitespace cur (c # cs) =
     (if isspace c then (if cur = [] then nonwhitespace [] cs else rev cur # nonwhitespace [] cs)
      else nonwhitespace (c # cur) cs)"

section \<open>Parsed documents\<close>

text \<open>
  The document tree that \<^verbatim>\<open>BeautifulSoup(content, 'html.parser')\<close> builds: a tag has a name,
  an attribute dictionary (an association list read with \<open>map_of\<close>; every value is a string,
  a valueless attribute has the value \<^verbatim>\<open>""\<close>) and its children in document order; the other
  nodes are text and comments. The soup object itself is a tag, named \<^verbatim>\<open>[document]\<close>.

  Text has a class. Plain text is a \<^verbatim>\<open>NavigableString\<close> (a \<^verbatim>\<open>CData\<close> section behaves as one
  in all that the program does, and is modelled as one). The parser gives the text that it
  reads inside a \<^verbatim>\<open>style\<close>, \<^verbatim>\<open>script\<close>, \<^verbatim>\<open>template\<close>, \<^verbatim>\<open>rt\<close> or \<^verbatim>\<open>rp\<close> tag, the innermost
  such tag deciding, the class of that container (Beautiful Soup 4.11 and later).
\<close>

datatype string_class =
  Stylesheet | Script | TemplateString | RubyTextString | RubyParenthesisString

datatype node =
    Tag string "(string \<times> string) list" "node list"
  | NavigableString string
  | Comment string
  | ContainerString string_class string

text \<open>The parser's table \<^verbatim>\<open>string_containers\<close>.\<close>

definition string_containers :: "string \<rightharpoonup> string_class" where
  "string_containers =
     map_of [(''rt'', RubyTextString), (''rp'', RubyParenthesisString),
             (''style'', Stylesheet), (''script'', Script), (''template'', TemplateString)]"

fun tag_name :: "node \<Rightarrow> string option" where
  "tag_name (Tag n a cs) = Some n"
| "tag_name (NavigableString s) = None"
| "tag_name (Comment s) = None"
| "tag_name (ContainerString k s) = None"

text \<open>\<^verbatim>\<open>tag.get(key)\<close>, as the string stored by the parser.\<close>

fun get :: "node \<Rightarrow> string \<Rightarrow> string option" where
  "get (Tag n a cs) k = map_of a k"
| "get (NavigableString s) k = None"
| "get (Comment s) k = None"
| "get (ContainerString c s) k = None"

text \<open>The parser stores the \<^verbatim>\<open>class\<close> attribute as the list of its whitespace-separated
  tokens; \<^verbatim>\<open>tag.get('class', [])\<close> reads that list.\<close>

definition get_class :: "node \<Rightarrow> string list option" where
  "get_class t = map_option (nonwhitespace []) (get t ''class'')"

text \<open>\<^verbatim>\<open>tag.descendants\<close>: every node below the tag, in document order. The second function
  pairs each descendant with its parent (\<^verbatim>\<open>find_parent()\<close> of a node found in the tree).\<close>

fun descendants :: "node \<Rightarrow> node list" where
  "descendants (Tag n a cs) = concat (map (\<lambda>c. c # descendants c) cs)"
| "descendants (NavigableString s) = []"
| "descendants (Comment s) = []"
| "descendants (ContainerString k s) = []"

fun descendants_parent :: "node \<Rightarrow> (node \<times> node) list" where
  "descendants_parent (Tag n a cs) =
     concat (map (\<lambda>c. (c, Tag n a cs) # descendants_parent c) cs)"
| "descendants_parent (NavigableString s) = []"
| "descendants_parent (Comment s) = []"
| "descendants_parent (ContainerString k s) = []"

subsection \<open>Searching the tree\<close>

text \<open>
  A search criterion on a multi-valued attribute (the class list) holds when one of the
  tokens meets it or when the tokens joined by single spaces meet it; on a missing attribute
  it fails.
\<close>

definition class_matches :: "string \<Rightarrow> node \<Rightarrow> bool" where
  "class_matches c t =
     (case get_class t of None \<Rightarrow> False
      | Some ts \<Rightarrow> c \<in> set ts \<or> join '' '' ts = c)"

text \<open>\<^verbatim>\<open>find_all(n)\<close>, \<^verbatim>\<open>find_all(n, class_=c)\<close>, \<^verbatim>\<open>find_all(n, {'id': i})\<close> and
  \<^verbatim>\<open>find_all(n, href=re.compile(p))\<close> select by these tests.\<close>

definition is_tag :: "string \<Rightarrow> node \<Rightarrow> bool" where
  "is_tag n t = (tag_name t = Some n)"

definition is_tag_class :: "string \<Rightarrow> string \<Rightarrow> node \<Rightarrow> bool" where
  "is_tag_class n c t = (is_tag n t \<and> class_matches c t)"

definition is_tag_id :: "string \<Rightarrow> string \<Rightarrow> node \<Rightarrow> bool" where
  "is_tag_id n i t = (is_tag n t \<and> get t ''id'' = Some i)"

definition is_tag_href_search :: "string \<Rightarrow> string \<Rightarrow> node \<Rightarrow> bool" where
  "is_tag_href_search n p t =
     (is_tag n t \<and> (case get t ''href'' of None \<Rightarrow> False | Some v \<Rightarrow> contains p v))"

definition find_all :: "(node \<Rightarrow> bool) \<Rightarrow> node \<Rightarrow> node list" where
  "find_all P t = filter P (descendants t)"

definition find_all_parent :: "(node \<Rightarrow> bool) \<Rightarrow> node \<Rightarrow> (node \<times> node) list" where
  "find_all_parent P t = filter (\<lambda>(e, p). P e) (descendants_parent t)"

text \<open>\<^verbatim>\<open>find\<close> is the first result of \<^verbatim>\<open>find_all\<close>, or \<^verbatim>\<open>None\<close>. A tag is always truthy, so
  \<^verbatim>\<open>a or b\<close> on two search results is the first that is not \<^verbatim>\<open>None\<close>.\<close>

definition find_first :: "(node \<Rightarrow> bool) \<Rightarrow> node \<Rightarrow> node option" where
  "find_first P t = (case find_all P t of [] \<Rightarrow> None | e # _ \<Rightarrow> Some e)"

definition or_else :: "'a option \<Rightarrow> 'a option \<Rightarrow> 'a option" where
  "or_else a b = (case a of Some x \<Rightarrow> Some x | None \<Rightarrow> b)"

subsection \<open>Text of a node\<close>

text \<open>
  The strings that \<^verbatim>\<open>_all_strings\<close> yields for a tag are the descendants whose class is one
  of the tag's \<^verbatim>\<open>interesting_string_types\<close>: for a container tag the class of the container,
  for any other tag the plain text. So the text of a script, a style sheet or a template is
  no text of the tags around it, and comments are no text of any tag.
  \<^verbatim>\<open>get_text(strip=True, separator=sep)\<close> joins the stripped, non-empty strings;
  \<^verbatim>\<open>get_text()\<close> concatenates the strings as they are.
\<close>

fun interesting_string :: "string_class option \<Rightarrow> node \<Rightarrow> string option" where
  "interesting_string None (NavigableString s) = Some s"
| "interesting_string (Some k) (ContainerString k' s) = (if k' = k then Some s else None)"
| "interesting_string types t = None"

definition interesting_string_types :: "node \<Rightarrow> string_class option" where
  "interesting_string_types t =
     (case tag_name t of Some n \<Rightarrow> string_containers n | None \<Rightarrow> None)"

definition all_strings :: "node \<Rightarrow> string list" where
  "all_strings t =
     List.map_filter (interesting_string (interesting_string_types t)) (descendants t)"

definition get_text_strip :: "string \<Rightarrow> node \<Rightarrow> string" where
  "get_text_strip sep t = join sep (filter (\<lambda>s. s \<noteq> []) (map strip (all_strings t)))"

definition get_text :: "node \<Rightarrow> string" where
  "get_text t = concat (all_strings t)"

section \<open>The user-ratings extractor\<close>

text \<open>A rating is the dictionary \<^verbatim>\<open>rating_data\<close>: each of its three keys may be absent.\<close>

record rating =
  stars :: "int option"
  user :: "string option"
  comment :: "string option"

text \<open>The filled-star count of one widget: the star icons below it (two markups) whose
  class list has \<^verbatim>\<open>filled\<close> or \<^verbatim>\<open>active\<close>.\<close>

definition class_has :: "string \<Rightarrow> node \<Rightarrow> bool" where
  "class_has k s = (case get_class s of None \<Rightarrow> False | Some ts \<Rightarrow> k \<in> set ts)"

definition filled_stars :: "node \<Rightarrow> int" where
  "filled_stars rating_elem =
     int (length (filter (\<lambda>s. class_has ''filled'' s \<or> class_has ''active'' s)
       (find_all (is_tag_class ''i'' ''fa-star'') rating_elem
        @ find_all (is_tag_class ''span'' ''star'') rating_elem)))"

text \<open>The body of the loop for a widget that is kept; \<open>parent\<close> is the widget's parent.\<close>

definition rating_data :: "node \<Rightarrow> node \<Rightarrow> rating" where
  "rating_data rating_elem parent =
     \<lparr> stars = Some (filled_stars rating_elem),
       user = map_option (get_text_strip '''') (find_first (is_tag_href_search ''a'' ''/user/'') parent),
       comment = map_option (get_text_strip '''')
         (or_else (find_first (is_tag_class ''div'' ''comment'') parent)
                  (find_first (is_tag ''p'') parent)) \<rparr>"

fun ratings_loop :: "(node \<times> node) list \<Rightarrow> rating list \<Rightarrow> rating list" where
  "ratings_loop [] ratings = ratings"
| "ratings_loop ((rating_elem, parent) # rest) ratings =
     (if filled_stars rating_elem > 0
      then ratings_loop rest (ratings @ [rating_data rating_elem parent])
      else ratings_loop rest ratings)"

text \<open>The candidate widgets, each with its parent, in scan order.\<close>

definition rating_elements :: "node \<Rightarrow> (node \<times> node) list" where
  "rating_elements soup =
     find_all_parent (is_tag_class ''div'' ''star-rating'') soup
     @ find_all_parent (is_tag_class ''span'' ''scoreStars'') soup"

definition extract_user_ratings :: "node \<Rightarrow> rating list" where
  "extract_user_ratings soup = ratings_loop (rating_elements soup) []"

section \<open>The basic-info extractor\<close>

text \<open>The result is the dictionary \<^verbatim>\<open>route_info\<close> with the keys \<^verbatim>\<open>name\<close> and
  \<^verbatim>\<open>difficulty\<close>.\<close>

definition extract_route_basic_info :: "node \<Rightarrow> (string \<rightharpoonup> string)" where
  "extract_route_basic_info soup =
     (let name_elem = find_first (is_tag ''h1'') soup;
          route_info = Map.empty(''name'' \<mapsto>
            (case name_elem of Some e \<Rightarrow> get_text_strip '''' e | None \<Rightarrow> ''N/A''));
          grade_elem = or_else (or_else (find_first (is_tag_class ''span'' ''rateYDS'') soup)
                                        (find_first (is_tag_class ''span'' ''rateHueco'') soup))
                               (find_first (is_tag_class ''span'' ''rateVScale'') soup);
          grade_elem = (case grade_elem of
                          None \<Rightarrow> find_first (is_tag_class ''h2'' ''inline-block mr-2'') soup
                        | Some e \<Rightarrow> Some e)
      in route_info(''difficulty'' \<mapsto>
            (case grade_elem of Some e \<Rightarrow> get_text_strip '''' e | None \<Rightarrow> ''N/A'')))"

section \<open>The description extractor\<close>

text \<open>
  \<^verbatim>\<open>decompose()\<close> on every \<^verbatim>\<open>script\<close> and \<^verbatim>\<open>style\<close> tag below the block removes those
  subtrees. The block is changed in place, so the extractor also returns the document as it
  is afterwards: \<open>map_first\<close> rewrites the first node, in document order, that meets the test.
\<close>

fun decompose_scripts :: "node \<Rightarrow> node" where
  "decompose_scripts (Tag n a cs) =
     Tag n a (map decompose_scripts
                (filter (\<lambda>c. \<not> (is_tag ''script'' c \<or> is_tag ''style'' c)) cs))"
| "decompose_scripts (NavigableString s) = NavigableString s"
| "decompose_scripts (Comment s) = Comment s"
| "decompose_scripts (ContainerString k s) = ContainerString k s"

fun map_first :: "(node \<Rightarrow> bool) \<Rightarrow> (node \<Rightarrow> node) \<Rightarrow> node \<Rightarrow> node option"
  and map_first_list :: "(node \<Rightarrow> bool) \<Rightarrow> (node \<Rightarrow> node) \<Rightarrow> node list \<Rightarrow> node list option"
where
  "map_first P f (Tag n a cs) = map_option (Tag n a) (map_first_list P f cs)"
| "map_first P f (NavigableString s) = None"
| "map_first P f (Comment s) = None"
| "map_first P f (ContainerString k s) = None"
| "map_first_list P f [] = None"
| "map_first_list P f (c # cs) =
     (if P c then Some (f c # cs)
      else case map_first P f c of
             Some c' \<Rightarrow> Some (c' # cs)
           | None \<Rightarrow> map_option ((#) c) (map_first_list P f cs))"

definition extract_description :: "node \<Rightarrow> string \<times> node" where
  "extract_description soup =
     (let fr_view = is_tag_class ''div'' ''fr-view'';
          by_id = is_tag_id ''div'' ''route-description'';
          sel = (if find_first fr_view soup \<noteq> None then fr_view else by_id)
      in case or_else (find_first fr_view soup) (find_first by_id soup) of
           Some desc_section \<Rightarrow>
             (get_text_strip '' '' (decompose_scripts desc_section),
              (case map_first sel decompose_scripts soup of Some soup' \<Rightarrow> soup' | None \<Rightarrow> soup))
         | None \<Rightarrow> (''No description available'', soup))"

section \<open>The access-info extractor\<close>

text \<open>Case-insensitive search (\<^verbatim>\<open>re.I\<close>) of a pattern of ASCII letters: the ASCII letters
  of both sides are lowered; no other character of the model matches an ASCII letter.\<close>

definition lower :: "string \<Rightarrow> string" where
  "lower s = map (\<lambda>c. if (65::nat) \<le> of_char c \<and> of_char c \<le> (90::nat)
                        then char_of (of_char c + (32::nat)) else c) s"

definition icontains :: "string \<Rightarrow> string \<Rightarrow> bool" where
  "icontains sub s = contains (lower sub) (lower s)"

text \<open>\<^verbatim>\<open>tag.string\<close>: the single string below a tag with exactly one child, looked for
  through single-child tags.\<close>

fun string_of :: "node \<Rightarrow> string option" where
  "string_of (Tag n a [NavigableString s]) = Some s"
| "string_of (Tag n a [Comment s]) = Some s"
| "string_of (Tag n a [ContainerString k s]) = Some s"
| "string_of (Tag n a [Tag m b ds]) = string_of (Tag m b ds)"
| "string_of t = None"

text \<open>Every descendant with the result of its \<^verbatim>\<open>find_next_sibling()\<close>: the next sibling that
  is a tag.\<close>

fun is_any_tag :: "node \<Rightarrow> bool" where
  "is_any_tag (Tag n a cs) = True"
| "is_any_tag (NavigableString s) = False"
| "is_any_tag (Comment s) = False"
| "is_any_tag (ContainerString k s) = False"

fun descendants_next :: "node \<Rightarrow> (node \<times> node option) list"
  and descendants_next_list :: "node list \<Rightarrow> (node \<times> node option) list"
where
  "descendants_next (Tag n a cs) = descendants_next_list cs"
| "descendants_next (NavigableString s) = []"
| "descendants_next (Comment s) = []"
| "descendants_next (ContainerString k s) = []"
| "descendants_next_list [] = []"
| "descendants_next_list (c # cs) =
     (c, List.find is_any_tag cs) # descendants_next c @ descendants_next_list cs"

definition is_access_header :: "node \<Rightarrow> bool" where
  "is_access_header t =
     ((is_tag ''h3'' t \<or> is_tag ''h4'' t \<or> is_tag ''h5'' t) \<and>
      (case string_of t of None \<Rightarrow> False
       | Some s \<Rightarrow> icontains ''Getting There'' s \<or> icontains ''Access'' s \<or> icontains ''Approach'' s))"

fun access_loop :: "(node \<times> node option) list \<Rightarrow> string list \<Rightarrow> string list" where
  "access_loop [] access_info = access_info"
| "access_loop ((header, next_elem) # rest) access_info =
     (case next_elem of
        Some e \<Rightarrow>
          (if is_tag ''p'' e \<or> is_tag ''div'' e
           then access_loop rest (access_info @ [get_text_strip '''' e])
           else access_loop rest access_info)
      | None \<Rightarrow> access_loop rest access_info)"

definition extract_access_info :: "node \<Rightarrow> string" where
  "extract_access_info soup =
     (let access_info = access_loop (filter (\<lambda>(h, nx). is_access_header h) (descendants_next soup)) [];
          access_section = or_else (find_first (is_tag_id ''div'' ''route-getting-there'') soup)
                                   (find_first (is_tag_class ''section'' ''getting-there'') soup);
          access_info = (case access_section of
                           Some e \<Rightarrow> access_info @ [get_text_strip '' '' e]
                         | None \<Rightarrow> access_info)
      in if access_info \<noteq> [] then join '' '' access_info else ''No access information available'')"

section \<open>Floating-point numbers\<close>

text \<open>
  A Python \<^verbatim>\<open>float\<close> is a binary64 value: a finite one is the rational it denotes. The
  conversions the program uses (integer true division, \<^verbatim>\<open>float(str)\<close>, \<^verbatim>\<open>round(x, 1)\<close>)
  are correctly rounded, to nearest with ties to even: \<open>to_double\<close> rounds a non-negative
  rational to 53 significant bits, with the exponent bounded below (subnormals) and not
  above, so that the caller sees an overflow as a result of at least \<open>2 ^ 1024\<close>.
\<close>

datatype error = ValueError | OverflowError | ZeroDivisionError

datatype pyfloat = Finite rat | NegZero | PosInf | NegInf

definition round_half_even :: "rat \<Rightarrow> int" where
  "round_half_even x =
     (let n = \<lfloor>x\<rfloor>; r = x - of_int n
      in if r < 1 / 2 then n else if 1 / 2 < r then n + 1 else if even n then n else n + 1)"

definition pow2 :: "int \<Rightarrow> rat" where
  "pow2 e = (if 0 \<le> e then 2 ^ nat e else 1 / 2 ^ nat (- e))"

text \<open>\<^verbatim>\<open>n.bit_length()\<close> of a non-negative integer.\<close>

function bit_length :: "int \<Rightarrow> int" where
  "bit_length n = (if n \<le> 0 then 0 else 1 + bit_length (n div 2))"
  by pat_completeness auto
termination
  by (relation "measure nat") auto

declare bit_length.simps [simp del]

text \<open>The floor of the binary logarithm of a positive rational.\<close>

definition ilog2 :: "rat \<Rightarrow> int" where
  "ilog2 q =
     (case quotient_of q of (a, b) \<Rightarrow>
        let k = bit_length a - bit_length b
        in if pow2 k \<le> q then k else k - 1)"

definition to_double :: "rat \<Rightarrow> rat" where
  "to_double q =
     (if q = 0 then 0
      else let e = max (ilog2 q - 52) (- 1074)
           in of_int (round_half_even (q / pow2 e)) * pow2 e)"

text \<open>The float of sign \<open>neg\<close> and magnitude nearest to \<open>q\<close>; too large a magnitude is an
  infinity (\<^verbatim>\<open>float(str)\<close>, \<^verbatim>\<open>round\<close>).\<close>

definition float_of_rat :: "bool \<Rightarrow> rat \<Rightarrow> pyfloat" where
  "float_of_rat neg q =
     (let v = to_double q
      in if 2 ^ 1024 \<le> v then (if neg then NegInf else PosInf)
         else if v = 0 then (if neg then NegZero else Finite 0)
         else Finite (if neg then - v else v))"

text \<open>\<^verbatim>\<open>a / b\<close> on integers.\<close>

definition truediv :: "int \<Rightarrow> int \<Rightarrow> error + pyfloat" where
  "truediv a b =
     (if b = 0 then Inl ZeroDivisionError
      else let neg = ((a < 0) \<noteq> (b < 0)); v = to_double (\<bar>of_int a / of_int b\<bar>)
           in if 2 ^ 1024 \<le> v then Inl OverflowError
              else if v = 0 then Inr (if neg then NegZero else Finite 0)
              else Inr (Finite (if neg then - v else v)))"

text \<open>\<^verbatim>\<open>round(x, 1)\<close>: the decimal with one digit after the point nearest to the exact value
  of \<open>x\<close> (ties to even), converted back to a float.\<close>

fun round1 :: "pyfloat \<Rightarrow> pyfloat" where
  "round1 (Finite x) = float_of_rat (x < 0) (of_int (round_half_even (\<bar>x\<bar> * 10)) / 10)"
| "round1 NegZero = NegZero"
| "round1 PosInf = PosInf"
| "round1 NegInf = NegInf"

text \<open>\<^verbatim>\<open>x > 0\<close>.\<close>

fun gt_zero :: "pyfloat \<Rightarrow> bool" where
  "gt_zero (Finite x) = (0 < x)"
| "gt_zero NegZero = False"
| "gt_zero PosInf = True"
| "gt_zero NegInf = False"

subsection \<open>Decimal numerals\<close>

text \<open>The characters of the model that \<^verbatim>\<open>\d\<close> matches and that \<^verbatim>\<open>float\<close> reads as digits
  are the ASCII digits; the decimal digits of other scripts lie beyond U+00FF.\<close>

definition isdigit :: "char \<Rightarrow> bool" where
  "isdigit c = ((48::nat) \<le> of_char c \<and> of_char c \<le> (57::nat))"

definition digits_val :: "string \<Rightarrow> nat" where
  "digits_val ds = foldl (\<lambda>v c. 10 * v + (of_char c - 48)) 0 ds"

text \<open>\<^verbatim>\<open>float(s)\<close> for a string \<open>s\<close> of the shape \<^verbatim>\<open>-?\d+\.?\d*\<close>, the only strings the program
  converts.\<close>

definition float_of_string :: "string \<Rightarrow> pyfloat" where
  "float_of_string s =
     (let neg = (case s of c # _ \<Rightarrow> c = CHR ''-'' | [] \<Rightarrow> False);
          body = (if neg then tl s else s);
          ip = takeWhile isdigit body;
          fp = (case dropWhile isdigit body of c # r \<Rightarrow> (if c = CHR ''.'' then r else []) | [] \<Rightarrow> [])
      in float_of_rat neg (of_nat (digits_val ip) + of_nat (digits_val fp) / 10 ^ length fp))"

section \<open>The location extractor\<close>

text \<open>
  The coordinate pattern \<^verbatim>\<open>(-?\d+\.?\d*),\s*(-?\d+\.?\d*)\<close>. \<open>match_number\<close> reads the longest
  \<^verbatim>\<open>-?\d+\.?\d*\<close> at the head of a string and returns it with the rest; no shorter reading
  of the first group can be followed by the comma, so the greedy one decides a match at a
  position. \<^verbatim>\<open>search\<close> takes the leftmost position that matches.
\<close>

definition match_number :: "string \<Rightarrow> (string \<times> string) option" where
  "match_number s =
     (let sign = (case s of c # _ \<Rightarrow> (if c = CHR ''-'' then ''-'' else '''') | [] \<Rightarrow> '''');
          s1 = drop (length sign) s;
          ds = takeWhile isdigit s1;
          s2 = dropWhile isdigit s1
      in if ds = [] then None
         else case s2 of
                c # r \<Rightarrow> (if c = CHR ''.''
                           then Some (sign @ ds @ ''.'' @ takeWhile isdigit r, dropWhile isdigit r)
                           else Some (sign @ ds, s2))
              | [] \<Rightarrow> Some (sign @ ds, s2))"

definition coord_match_at :: "string \<Rightarrow> (string \<times> string) option" where
  "coord_match_at s =
     (case match_number s of
        None \<Rightarrow> None
      | Some (g1, r) \<Rightarrow>
          (case r of
             c # r' \<Rightarrow>
               (if c = CHR '','' then
                  (case match_number (dropWhile isspace r') of
                     None \<Rightarrow> None
                   | Some (g2, _) \<Rightarrow> Some (g1, g2))
                else None)
           | [] \<Rightarrow> None))"

fun coord_search :: "string \<Rightarrow> (string \<times> string) option" where
  "coord_search [] = None"
| "coord_search (c # cs) =
     (case coord_match_at (c # cs) of Some m \<Rightarrow> Some m | None \<Rightarrow> coord_search cs)"

text \<open>The elevation pattern \<^verbatim>\<open>(\d+)\s*(?:ft|feet|m|meters)\<close> with \<^verbatim>\<open>re.I\<close>; the result is the
  first group.\<close>

definition elevation_match_at :: "string \<Rightarrow> string option" where
  "elevation_match_at s =
     (let ds = takeWhile isdigit s;
          r = lower (dropWhile isspace (dropWhile isdigit s))
      in if ds \<noteq> [] \<and> (prefix ''ft'' r \<or> prefix ''feet'' r \<or> prefix ''m'' r \<or> prefix ''meters'' r)
         then Some ds else None)"

fun elevation_search :: "string \<Rightarrow> string option" where
  "elevation_search [] = None"
| "elevation_search (c # cs) =
     (case elevation_match_at (c # cs) of Some g \<Rightarrow> Some g | None \<Rightarrow> elevation_search cs)"

text \<open>The dictionary \<^verbatim>\<open>location\<close>: each key may be absent.\<close>

record location =
  latitude :: "pyfloat option"
  longitude :: "pyfloat option"
  area_hierarchy :: "string list option"
  elevation :: "string option"

text \<open>The scan of the \<^verbatim>\<open>meta\<close> tags, which stops at the first content that matches.\<close>

fun coords_loop :: "node list \<Rightarrow> location \<Rightarrow> location" where
  "coords_loop [] loc = loc"
| "coords_loop (meta # metas) loc =
     (let content = (case get meta ''content'' of Some v \<Rightarrow> v | None \<Rightarrow> '''')
      in case coord_search content of
           Some (g1, g2) \<Rightarrow>
             loc\<lparr>latitude := Some (float_of_string g1), longitude := Some (float_of_string g2)\<rparr>
         | None \<Rightarrow> coords_loop metas loc)"

text \<open>\<^verbatim>\<open>find(string=pattern)\<close> looks at the text nodes of every class, comments included.\<close>

fun node_string :: "node \<Rightarrow> string option" where
  "node_string (NavigableString s) = Some s"
| "node_string (Comment s) = Some s"
| "node_string (ContainerString k s) = Some s"
| "node_string (Tag n a cs) = None"

definition is_elevation_string :: "node \<Rightarrow> bool" where
  "is_elevation_string t = (case node_string t of Some s \<Rightarrow> icontains ''elevation'' s | None \<Rightarrow> False)"

definition extract_location :: "node \<Rightarrow> location" where
  "extract_location soup =
     (let location = coords_loop (find_all (is_tag ''meta'') soup)
            \<lparr>latitude = None, longitude = None, area_hierarchy = None, elevation = None\<rparr>;
          breadcrumbs = or_else (find_first (is_tag_class ''nav'' ''breadcrumbs'') soup)
                                (find_first (is_tag_class ''div'' ''breadcrumb'') soup);
          location = (case breadcrumbs of
                        Some b \<Rightarrow> location\<lparr>area_hierarchy :=
                          Some (filter (\<lambda>s. s \<noteq> [])
                                  (map (get_text_strip '''') (find_all (is_tag ''a'') b)))\<rparr>
                      | None \<Rightarrow> location)
      in case find_all_parent is_elevation_string soup of
           (elevation_elem, parent) # _ \<Rightarrow>
             (case elevation_search (get_text parent) of
                Some g \<Rightarrow> location\<lparr>elevation := Some g\<rparr>
              | None \<Rightarrow> location)
         | [] \<Rightarrow> location)"

section \<open>The images extractor\<close>

text \<open>
  \<^verbatim>\<open>soup.select(selector)\<close> returns the tags that match, in document order. A descendant
  combinator looks at the tags above the candidate, so each descendant comes with its
  ancestors below the soup object, nearest first.
\<close>

fun descendants_ancestors :: "node list \<Rightarrow> node \<Rightarrow> (node \<times> node list) list" where
  "descendants_ancestors anc (Tag n a cs) =
     concat (map (\<lambda>c. (c, anc) # descendants_ancestors (c # anc) c) cs)"
| "descendants_ancestors anc (NavigableString s) = []"
| "descendants_ancestors anc (Comment s) = []"
| "descendants_ancestors anc (ContainerString k s) = []"

definition select :: "(node \<times> node list \<Rightarrow> bool) \<Rightarrow> node \<Rightarrow> node list" where
  "select sel soup = map fst (filter sel (descendants_ancestors [] soup))"

text \<open>\<^verbatim>\<open>img[src*="v"]\<close>, \<^verbatim>\<open>.c img\<close> and \<^verbatim>\<open>#i img\<close>.\<close>

definition img_src_contains :: "string \<Rightarrow> node \<times> node list \<Rightarrow> bool" where
  "img_src_contains v = (\<lambda>(e, anc). is_tag ''img'' e \<and>
     (case get e ''src'' of Some s \<Rightarrow> contains v s | None \<Rightarrow> False))"

definition img_below_class :: "string \<Rightarrow> node \<times> node list \<Rightarrow> bool" where
  "img_below_class c = (\<lambda>(e, anc). is_tag ''img'' e \<and> (\<exists>x \<in> set anc. is_any_tag x \<and> class_has c x))"

definition img_below_id :: "string \<Rightarrow> node \<times> node list \<Rightarrow> bool" where
  "img_below_id i = (\<lambda>(e, anc). is_tag ''img'' e \<and> (\<exists>x \<in> set anc. is_any_tag x \<and> get x ''id'' = Some i))"

definition img_selectors :: "(node \<times> node list \<Rightarrow> bool) list" where
  "img_selectors =
     [img_src_contains ''route'', img_src_contains ''photo'', img_below_class ''photo'',
      img_below_class ''image-gallery'', img_below_id ''route-photos'']"

text \<open>
  The extractors take the resolver as a parameter: a function that returns the resolved URL
  or raises (\<^verbatim>\<open>ValueError\<close> on a malformed network location). The program's resolver,
  \<^verbatim>\<open>urljoin\<close> of the standard library, is modelled in a section of its own below.
\<close>

type_synonym urljoin = "string \<Rightarrow> string \<Rightarrow> error + string"

text \<open>\<^verbatim>\<open>img.get('src') or img.get('data-src')\<close>: the first value if it is a non-empty string,
  else the second.\<close>

definition img_src :: "node \<Rightarrow> string option" where
  "img_src img =
     (case get img ''src'' of
        Some v \<Rightarrow> (if v \<noteq> [] then Some v else get img ''data-src'')
      | None \<Rightarrow> get img ''data-src'')"

fun images_inner :: "urljoin \<Rightarrow> string \<Rightarrow> node list \<Rightarrow> string list \<Rightarrow> error + string list" where
  "images_inner uj base_url [] images = Inr images"
| "images_inner uj base_url (img # rest) images =
     (case img_src img of
        Some src \<Rightarrow>
          (if src \<noteq> [] then
             (case uj base_url src of
                Inl e \<Rightarrow> Inl e
              | Inr full_url \<Rightarrow>
                  (if full_url \<notin> set images
                   then images_inner uj base_url rest (images @ [full_url])
                   else images_inner uj base_url rest images))
           else images_inner uj base_url rest images)
      | None \<Rightarrow> images_inner uj base_url rest images)"

fun images_outer ::
  "urljoin \<Rightarrow> string \<Rightarrow> node \<Rightarrow> (node \<times> node list \<Rightarrow> bool) list \<Rightarrow> string list \<Rightarrow> error + string list"
where
  "images_outer uj base_url soup [] images = Inr images"
| "images_outer uj base_url soup (selector # rest) images =
     (case images_inner uj base_url (select selector soup) images of
        Inl e \<Rightarrow> Inl e
      | Inr images' \<Rightarrow> images_outer uj base_url soup rest images')"

definition extract_images :: "urljoin \<Rightarrow> node \<Rightarrow> string \<Rightarrow> error + string list" where
  "extract_images uj soup base_url = images_outer uj base_url soup img_selectors []"

section \<open>The route assembler and the batch driver\<close>

record route =
  name :: string
  difficulty :: string
  description :: string
  access_info :: string
  user_ratings :: "rating list"
  location :: location
  images :: "string list"
  url :: string

definition base_url :: string where
  "base_url = ''https://www.mountainproject.com''"

text \<open>
  \<^verbatim>\<open>get_page\<close> is the fetch: from a URL and the state of the world (network, clock) it gives
  the parsed document, or \<^verbatim>\<open>None\<close> after a transport error, and the world afterwards. The
  world is a parameter of the model. Console output is not modelled.
\<close>

type_synonym 'w get_page = "string \<Rightarrow> 'w \<Rightarrow> node option \<times> 'w"

text \<open>The extractors run in the source's order on the one document, which the description
  extractor may have changed. An exception inside the \<^verbatim>\<open>try\<close> block gives \<^verbatim>\<open>None\<close>.\<close>

definition scrape_route :: "'w get_page \<Rightarrow> urljoin \<Rightarrow> string \<Rightarrow> 'w \<Rightarrow> route option \<times> 'w" where
  "scrape_route gp uj route_url w =
     (case gp route_url w of
        (None, w') \<Rightarrow> (None, w')
      | (Some soup, w') \<Rightarrow>
          (let basic_info = extract_route_basic_info soup;
               (desc, soup') = extract_description soup;
               access = extract_access_info soup';
               ratings = extract_user_ratings soup';
               loc = extract_location soup'
           in case extract_images uj soup' base_url of
                Inl e \<Rightarrow> (None, w')
              | Inr imgs \<Rightarrow>
                  (Some \<lparr> name = (case basic_info ''name'' of Some v \<Rightarrow> v | None \<Rightarrow> ''N/A''),
                          difficulty = (case basic_info ''difficulty'' of Some v \<Rightarrow> v | None \<Rightarrow> ''N/A''),
                          description = desc,
                          access_info = access,
                          user_ratings = ratings,
                          location = loc,
                          images = imgs,
                          url = route_url \<rparr>, w')))"

fun scrape_loop ::
  "'w get_page \<Rightarrow> urljoin \<Rightarrow> string list \<Rightarrow> route list \<Rightarrow> 'w \<Rightarrow> route list \<times> 'w"
where
  "scrape_loop gp uj [] routes w = (routes, w)"
| "scrape_loop gp uj (route_url # rest) routes w =
     (case scrape_route gp uj route_url w of
        (Some route, w') \<Rightarrow> scrape_loop gp uj rest (routes @ [route]) w'
      | (None, w') \<Rightarrow> scrape_loop gp uj rest routes w')"

definition scrape_multiple_routes ::
  "'w get_page \<Rightarrow> urljoin \<Rightarrow> string list \<Rightarrow> 'w \<Rightarrow> route list \<times> 'w"
where
  "scrape_multiple_routes gp uj route_urls w = scrape_loop gp uj route_urls [] w"

section \<open>The route link discoverer\<close>

text \<open>\<^verbatim>\<open>find_all('a', href=True)\<close>: the anchors that have the attribute.\<close>

definition is_a_href :: "node \<Rightarrow> bool" where
  "is_a_href t = (is_tag ''a'' t \<and> get t ''href'' \<noteq> None)"

fun links_loop :: "urljoin \<Rightarrow> node list \<Rightarrow> string list \<Rightarrow> error + string list" where
  "links_loop uj [] route_links = Inr route_links"
| "links_loop uj (link # rest) route_links =
     (case get link ''href'' of
        Some href \<Rightarrow>
          (if contains ''/route/'' href then
             (case uj base_url href of
                Inl e \<Rightarrow> Inl e
              | Inr full_url \<Rightarrow> links_loop uj rest (route_links @ [full_url]))
           else links_loop uj rest route_links)
      | None \<Rightarrow> links_loop uj rest route_links)"

text \<open>\<^verbatim>\<open>xs[:n]\<close>: a negative bound counts from the end.\<close>

definition slice_to :: "int \<Rightarrow> 'a list \<Rightarrow> 'a list" where
  "slice_to n xs = (if 0 \<le> n then take (nat n) xs else take (nat (int (length xs) + n)) xs)"

text \<open>
  \<^verbatim>\<open>list(set(route_links))\<close> lists each element once, in an order the language does not
  fix: the function \<open>list_set\<close> that gives this list is a parameter of the model.
  \<open>max_routes\<close> is \<^verbatim>\<open>None\<close> or an integer.
\<close>

definition find_routes_from_area ::
  "'w get_page \<Rightarrow> urljoin \<Rightarrow> (string list \<Rightarrow> string list) \<Rightarrow> string \<Rightarrow> int option \<Rightarrow> 'w
     \<Rightarrow> (error + string list) \<times> 'w"
where
  "find_routes_from_area gp uj list_set area_url max_routes w =
     (case gp area_url w of
        (None, w') \<Rightarrow> (Inr [], w')
      | (Some soup, w') \<Rightarrow>
          (case links_loop uj (find_all is_a_href soup) [] of
             Inl e \<Rightarrow> (Inl e, w')
           | Inr route_links \<Rightarrow>
               (let route_links = list_set route_links
                in case max_routes of
                     Some n \<Rightarrow> (if n \<noteq> 0 then (Inr (slice_to n route_links), w')
                                else (Inr route_links, w'))
                   | None \<Rightarrow> (Inr route_links, w'))))"

section \<open>The CSV exporter\<close>

text \<open>
  A cell holds a string or a number. A row is the dictionary handed to the writer, its keys
  in the order of \<open>fieldnames\<close>; a file is the list of the lines written to it, and the file
  system maps a file name to its file. How the writer quotes a cell is not modelled.
\<close>

datatype pynum = PyInt int | PyFloat pyfloat

datatype cell = CStr string | CNum pynum

datatype line = HeaderLine "string list" | RowLine "(string \<times> cell) list"

definition fieldnames :: "string list" where
  "fieldnames = [''name'', ''difficulty'', ''description'', ''access_info'', ''rating_count'',
     ''avg_rating'', ''location_area'', ''latitude'', ''longitude'', ''elevation'',
     ''image_count'', ''url'']"

fun num_gt_zero :: "pynum \<Rightarrow> bool" where
  "num_gt_zero (PyInt i) = (0 < i)"
| "num_gt_zero (PyFloat x) = gt_zero x"

text \<open>\<^verbatim>\<open>round(x, 1)\<close>; an integer is returned as it is.\<close>

fun num_round1 :: "pynum \<Rightarrow> pynum" where
  "num_round1 (PyInt i) = PyInt i"
| "num_round1 (PyFloat x) = PyFloat (round1 x)"

text \<open>\<^verbatim>\<open>sum(r.get('stars', 0) for r in ratings) / len(ratings) if ratings else 0\<close>.\<close>

definition avg_rating :: "rating list \<Rightarrow> error + pynum" where
  "avg_rating ratings =
     (if ratings \<noteq> [] then
        (case truediv (sum_list (map (\<lambda>r. case stars r of Some s \<Rightarrow> s | None \<Rightarrow> 0) ratings))
                      (int (length ratings)) of
           Inl e \<Rightarrow> Inl e
         | Inr x \<Rightarrow> Inr (PyFloat x))
      else Inr (PyInt 0))"

definition truncated :: "nat \<Rightarrow> string \<Rightarrow> string" where
  "truncated n s = (if n < length s then take n s @ ''...'' else s)"

definition csv_row :: "route \<Rightarrow> error + (string \<times> cell) list" where
  "csv_row r =
     (let ratings = user_ratings r
      in case avg_rating ratings of
           Inl e \<Rightarrow> Inl e
         | Inr avg \<Rightarrow>
             (let location_area =
                    join '', '' (case area_hierarchy (location r) of Some xs \<Rightarrow> xs | None \<Rightarrow> [])
              in Inr
                [(''name'', CStr (name r)),
                 (''difficulty'', CStr (difficulty r)),
                 (''description'', CStr (truncated 500 (description r))),
                 (''access_info'', CStr (truncated 300 (access_info r))),
                 (''rating_count'', CNum (PyInt (int (length ratings)))),
                 (''avg_rating'', if num_gt_zero avg then CNum (num_round1 avg) else CStr ''N/A''),
                 (''location_area'', CStr location_area),
                 (''latitude'', case latitude (location r) of
                                  Some x \<Rightarrow> CNum (PyFloat x) | None \<Rightarrow> CStr ''N/A''),
                 (''longitude'', case longitude (location r) of
                                   Some x \<Rightarrow> CNum (PyFloat x) | None \<Rightarrow> CStr ''N/A''),
                 (''elevation'', case elevation (location r) of
                                   Some s \<Rightarrow> CStr s | None \<Rightarrow> CStr ''N/A''),
                 (''image_count'', CNum (PyInt (int (length (images r))))),
                 (''url'', CStr (url r))]))"

text \<open>The loop over the routes writes one row each; an exception leaves what was written
  before it.\<close>

fun csv_loop :: "route list \<Rightarrow> line list \<Rightarrow> error option \<times> line list" where
  "csv_loop [] written = (None, written)"
| "csv_loop (r # rest) written =
     (case csv_row r of
        Inl e \<Rightarrow> (Some e, written)
      | Inr row \<Rightarrow> csv_loop rest (written @ [RowLine row]))"

definition save_to_csv ::
  "route list \<Rightarrow> string \<Rightarrow> (string \<rightharpoonup> line list) \<Rightarrow> error option \<times> (string \<rightharpoonup> line list)"
where
  "save_to_csv routes filename fs =
     (if routes = [] then (None, fs)
      else case csv_loop routes [HeaderLine fieldnames] of
             (err, written) \<Rightarrow> (err, fs(filename \<mapsto> written)))"


section \<open>Specification-side notions\<close>

text \<open>The grade markers in the order of the specification, and the element found by the
  first selector of a list that finds one.\<close>

definition grade_selectors :: "(node \<Rightarrow> bool) list" where
  "grade_selectors =
     [is_tag_class ''span'' ''rateYDS'', is_tag_class ''span'' ''rateHueco'',
      is_tag_class ''span'' ''rateVScale'', is_tag_class ''h2'' ''inline-block mr-2'']"

fun first_match :: "(node \<Rightarrow> bool) list \<Rightarrow> node \<Rightarrow> node option" where
  "first_match [] soup = None"
| "first_match (P # Ps) soup =
     (case find_first P soup of Some e \<Rightarrow> Some e | None \<Rightarrow> first_match Ps soup)"

section \<open>Example documents\<close>

definition soup_ratings :: node where
  "soup_ratings = Tag ''[document]'' []
     [Tag ''div'' [(''class'', ''review'')]
        [Tag ''div'' [(''class'', ''star-rating'')]
           [Tag ''i'' [(''class'', ''fa-star filled'')] [],
            Tag ''i'' [(''class'', ''fa-star filled'')] [],
            Tag ''i'' [(''class'', ''fa-star'')] []],
         Tag ''a'' [(''href'', ''/user/7/ann'')] [NavigableString '' Ann '']],
      Tag ''div'' []
        [Tag ''span'' [(''class'', ''scoreStars'')]
           [Tag ''span'' [(''class'', ''star'')] []],
         Tag ''p'' [] [NavigableString ''no stars'']]]"

definition soup_hueco :: node where
  "soup_hueco = Tag ''[document]'' []
     [Tag ''h1'' [] [NavigableString ''Midnight Lightning''],
      Tag ''h2'' [(''class'', ''inline-block mr-2'')] [NavigableString ''5.13b''],
      Tag ''div'' []
        [Tag ''span'' [(''class'', ''rateHueco'')] [NavigableString '' V8 '']]]"

definition soup_plain :: node where
  "soup_plain = Tag ''[document]'' []
     [Tag ''h1'' [] [NavigableString ''Unnamed''],
      Tag ''p'' [(''class'', ''note'')] [NavigableString ''no grade here'']]"

definition soup_empty_description :: node where
  "soup_empty_description = Tag ''[document]'' []
     [Tag ''h1'' [] [NavigableString ''The Nose''],
      Tag ''div'' [(''class'', ''fr-view'')] []]"

text \<open>The content strings of the \<^verbatim>\<open>meta\<close> tags, in document order (a tag without the
  attribute counts as the empty string).\<close>

definition meta_contents :: "node \<Rightarrow> string list" where
  "meta_contents soup =
     map (\<lambda>m. case get m ''content'' of Some v \<Rightarrow> v | None \<Rightarrow> '''')
       (find_all (is_tag ''meta'') soup)"

text \<open>Order-preserving de-duplication: each element once, at its first occurrence.\<close>

fun first_occurrences :: "'a list \<Rightarrow> 'a list" where
  "first_occurrences [] = []"
| "first_occurrences (x # xs) = x # filter (\<lambda>y. y \<noteq> x) (first_occurrences xs)"

text \<open>Resolving a list of references in order; the first failure is the result.\<close>

fun resolve_all :: "urljoin \<Rightarrow> string \<Rightarrow> string list \<Rightarrow> error + string list" where
  "resolve_all uj b [] = Inr []"
| "resolve_all uj b (s # ss) =
     (case uj b s of
        Inl e \<Rightarrow> Inl e
      | Inr u \<Rightarrow> (case resolve_all uj b ss of Inl e \<Rightarrow> Inl e | Inr us \<Rightarrow> Inr (u # us)))"

text \<open>The non-empty image sources of a list of elements, and those of a document: all
  selectors in order, each selector's matches in document order.\<close>

definition sources :: "node list \<Rightarrow> string list" where
  "sources imgs =
     List.map_filter
       (\<lambda>img. case img_src img of Some s \<Rightarrow> (if s \<noteq> [] then Some s else None) | None \<Rightarrow> None)
       imgs"

definition image_sources :: "node \<Rightarrow> string list" where
  "image_sources soup = concat (map (\<lambda>sel. sources (select sel soup)) img_selectors)"

text \<open>The hrefs of a list of anchors that contain \<^verbatim>\<open>/route/\<close>.\<close>

definition route_hrefs :: "node list \<Rightarrow> string list" where
  "route_hrefs links =
     List.map_filter
       (\<lambda>a. case get a ''href'' of
               Some h \<Rightarrow> (if contains ''/route/'' h then Some h else None)
             | None \<Rightarrow> None)
       links"

text \<open>What the batch driver meets: each URL of the list with the result of its
  \<open>scrape_route\<close>, the world being passed on from one call to the next.\<close>

fun attempts ::
  "'w get_page \<Rightarrow> urljoin \<Rightarrow> string list \<Rightarrow> 'w \<Rightarrow> (string \<times> route option) list"
where
  "attempts gp uj [] w = []"
| "attempts gp uj (u # us) w =
     (case scrape_route gp uj u w of (r, w') \<Rightarrow> (u, r) # attempts gp uj us w')"

text \<open>The value of one field in the row written for a route.\<close>

definition csv_field :: "string \<Rightarrow> route \<Rightarrow> cell option" where
  "csv_field k r = (case csv_row r of Inr row \<Rightarrow> map_of row k | Inl e \<Rightarrow> None)"

text \<open>The sum of the stars of a list of ratings, a missing key counting as 0.\<close>

definition stars_sum :: "rating list \<Rightarrow> int" where
  "stars_sum ratings = sum_list (map (\<lambda>r. case stars r of Some s \<Rightarrow> s | None \<Rightarrow> 0) ratings)"

text \<open>A bound on the stars below which the mean of any ratings list fits a float.\<close>

definition stars_bound :: int where
  "stars_bound = 2 ^ 1023"

definition soup_location :: node where
  "soup_location = Tag ''[document]'' []
     [Tag ''head'' []
        [Tag ''meta'' [(''charset'', ''utf-8'')] [],
         Tag ''meta'' [(''name'', ''description''), (''content'', ''A classic line'')] [],
         Tag ''meta'' [(''name'', ''geo.position''), (''content'', ''at 37.5, -119.25 north'')] [],
         Tag ''meta'' [(''name'', ''ICBM''), (''content'', ''1,2'')] []],
      Tag ''h1'' [] [NavigableString ''The Nose'']]"

definition soup_images :: node where
  "soup_images = Tag ''[document]'' []
     [Tag ''img'' [(''src'', ''/photos/route1.jpg'')] [],
      Tag ''div'' [(''class'', ''photo large'')]
        [Tag ''img'' [(''data-src'', ''/img/a.jpg'')] []],
      Tag ''div'' [(''class'', ''image-gallery'')]
        [Tag ''img'' [(''src'', ''''), (''data-src'', ''/lazy/b.png'')] [],
         Tag ''img'' [(''alt'', ''nothing'')] []],
      Tag ''div'' [(''id'', ''route-photos'')]
        [Tag ''p'' [] [Tag ''img'' [(''src'', ''/photos/route1.jpg'')] []]]]"

definition soup_area :: node where
  "soup_area = Tag ''[document]'' []
     [Tag ''a'' [(''href'', ''/route/1/a'')] [NavigableString ''A''],
      Tag ''a'' [(''href'', ''/route/1/a'')] [NavigableString ''A again''],
      Tag ''a'' [(''href'', ''/area/2/b'')] [NavigableString ''B''],
      Tag ''a'' [(''name'', ''top'')] []]"

definition soup_two_routes :: node where
  "soup_two_routes = Tag ''[document]'' []
     [Tag ''ul'' []
        [Tag ''li'' [] [Tag ''a'' [(''href'', ''/route/1/a'')] [NavigableString ''A'']],
         Tag ''li'' [] [Tag ''a'' [(''href'', ''/route/2/b'')] [NavigableString ''B'']],
         Tag ''li'' [] [Tag ''a'' [(''href'', ''/route/1/a'')] [NavigableString ''A'']]]]"

text \<open>
  Stand-ins for the parameters in the examples. For a base without a path and a reference
  that is an absolute path, \<^verbatim>\<open>urljoin\<close> returns the base followed by the reference; the
  examples resolve only such references. \<open>remdups\<close> is one way to list a set. The example
  fetch counts the requests in the world and fails on one URL.
\<close>

definition urljoin_concat :: urljoin where
  "urljoin_concat b s = Inr (b @ s)"

definition fetch_area :: "nat get_page" where
  "fetch_area u n = (Some soup_area, Suc n)"

definition fetch_two :: "nat get_page" where
  "fetch_two u n = (Some soup_two_routes, Suc n)"

definition fetch_example :: "nat get_page" where
  "fetch_example u n =
     (if u = ''https://www.mountainproject.com/route/2/b'' then None else Some soup_hueco, Suc n)"

definition fetch_ratings :: "nat get_page" where
  "fetch_ratings u n = (Some soup_ratings, Suc n)"

definition route_3_5 :: route where
  "route_3_5 =
     \<lparr> name = ''The Nose'', difficulty = ''5.9'', description = ''Long'', access_info = ''Walk'',
       user_ratings = [\<lparr>stars = Some 3, user = None, comment = None\<rparr>,
                       \<lparr>stars = Some 5, user = Some ''Ann'', comment = None\<rparr>],
       location = \<lparr>latitude = None, longitude = None, area_hierarchy = None, elevation = None\<rparr>,
       images = [], url = ''https://www.mountainproject.com/route/1/a'' \<rparr>"

definition route_unrated :: route where
  "route_unrated =
     \<lparr> name = ''Unnamed'', difficulty = ''N/A'', description = ''No description available'',
       access_info = ''No access information available'', user_ratings = [],
       location = \<lparr>latitude = None, longitude = None, area_hierarchy = None, elevation = None\<rparr>,
       images = [], url = ''https://www.mountainproject.com/route/4/d'' \<rparr>"

section \<open>The URL resolver of the standard library\<close>

text \<open>
  \<^verbatim>\<open>urllib.parse.urljoin\<close>, which the program calls with the site's base URL, as CPython 3.11
  has it, on strings (\<^verbatim>\<open>_coerce_args\<close> leaves strings as they are). A malformed network
  location raises \<^verbatim>\<open>ValueError\<close>. Whether the text between brackets is an IPv6 address is
  decided by the module \<^verbatim>\<open>ipaddress\<close>; that test is the parameter \<open>ipv6\<close> of the model. The
  check of the network location under NFKC normalisation never raises on the characters of
  the model (the code points below 256), so it has no branch here.
\<close>

definition uses_relative :: "string list" where
  "uses_relative = ['''', ''ftp'', ''http'', ''gopher'', ''nntp'', ''imap'',
                    ''wais'', ''file'', ''https'', ''shttp'', ''mms'',
                    ''prospero'', ''rtsp'', ''rtsps'', ''rtspu'', ''sftp'',
                    ''svn'', ''svn+ssh'', ''ws'', ''wss'']"

definition uses_netloc :: "string list" where
  "uses_netloc = ['''', ''ftp'', ''http'', ''gopher'', ''nntp'', ''telnet'',
                  ''imap'', ''wais'', ''file'', ''mms'', ''https'', ''shttp'',
                  ''snews'', ''prospero'', ''rtsp'', ''rtsps'', ''rtspu'', ''rsync'',
                  ''svn'', ''svn+ssh'', ''sftp'', ''nfs'', ''git'', ''git+ssh'',
                  ''ws'', ''wss'']"

definition uses_params :: "string list" where
  "uses_params = ['''', ''ftp'', ''hdl'', ''prospero'', ''http'', ''imap'',
                  ''https'', ''shttp'', ''rtsp'', ''rtsps'', ''rtspu'', ''sip'',
                  ''sips'', ''mms'', ''sftp'', ''tel'']"

definition scheme_chars :: string where
  "scheme_chars = ''abcdefghijklmnopqrstuvwxyz'' @ ''ABCDEFGHIJKLMNOPQRSTUVWXYZ'' @
                  ''0123456789'' @ ''+-.''"

text \<open>The characters of \<^verbatim>\<open>_WHATWG_C0_CONTROL_OR_SPACE\<close> and of
  \<^verbatim>\<open>_UNSAFE_URL_BYTES_TO_REMOVE\<close>.\<close>

definition c0_control_or_space :: "char \<Rightarrow> bool" where
  "c0_control_or_space c = (of_char c \<le> (32::nat))"

definition unsafe_url_byte :: "char \<Rightarrow> bool" where
  "unsafe_url_byte c = (c \<in> set [CHR 0x09, CHR 0x0D, CHR 0x0A])"

text \<open>\<^verbatim>\<open>c.isascii() and c.isalpha()\<close>.\<close>

definition ascii_alpha :: "char \<Rightarrow> bool" where
  "ascii_alpha c = (((65::nat) \<le> of_char c \<and> of_char c \<le> (90::nat)) \<or>
                    ((97::nat) \<le> of_char c \<and> of_char c \<le> (122::nat)))"

text \<open>\<^verbatim>\<open>s.split(sep)\<close> for a separator of one character, and \<^verbatim>\<open>s.split(sep, 1)\<close> for a
  string that has the separator.\<close>

fun split_char :: "char \<Rightarrow> string \<Rightarrow> string list" where
  "split_char sep [] = [[]]"
| "split_char sep (c # cs) =
     (if c = sep then [] # split_char sep cs
      else (case split_char sep cs of x # xs \<Rightarrow> (c # x) # xs | [] \<Rightarrow> [[c]]))"

definition split_once :: "char \<Rightarrow> string \<Rightarrow> string \<times> string" where
  "split_once sep s = (takeWhile (\<lambda>c. c \<noteq> sep) s, drop 1 (dropWhile (\<lambda>c. c \<noteq> sep) s))"

text \<open>The first steps of \<^verbatim>\<open>urlsplit\<close>: leading control characters and spaces are taken off
  the URL, and both ends off the default scheme; tabs and line ends are deleted from both.\<close>

definition clean_url :: "string \<Rightarrow> string" where
  "clean_url urlstr = filter (\<lambda>c. \<not> unsafe_url_byte c) (dropWhile c0_control_or_space urlstr)"

definition clean_scheme :: "string \<Rightarrow> string" where
  "clean_scheme scheme =
     filter (\<lambda>c. \<not> unsafe_url_byte c)
       (rev (dropWhile c0_control_or_space (rev (dropWhile c0_control_or_space scheme))))"

text \<open>The scheme: the text before the first colon, lowered, when it is not empty, starts
  with an ASCII letter and has scheme characters only; else the default. With it comes the
  rest of the URL. Both arguments are cleaned already.\<close>

definition split_scheme :: "string \<Rightarrow> string \<Rightarrow> string \<times> string" where
  "split_scheme urlstr scheme =
     (let pre = takeWhile (\<lambda>c. c \<noteq> CHR '':'') urlstr
      in if CHR '':'' \<in> set urlstr \<and> pre \<noteq> [] \<and> ascii_alpha (hd urlstr) \<and>
            (\<forall>c \<in> set pre. c \<in> set scheme_chars)
         then (lower pre, drop (length pre + 1) urlstr)
         else (scheme, urlstr))"

text \<open>\<^verbatim>\<open>_splitnetloc(url, 2)\<close>: the network location ends before the first of \<^verbatim>\<open>/?#\<close>.\<close>

definition splitnetloc :: "string \<Rightarrow> string \<times> string" where
  "splitnetloc urlstr =
     (takeWhile (\<lambda>c. c \<notin> set ''/?#'') (drop 2 urlstr),
      dropWhile (\<lambda>c. c \<notin> set ''/?#'') (drop 2 urlstr))"

text \<open>\<^verbatim>\<open>_check_bracketed_host\<close>: a host that starts with \<^verbatim>\<open>v\<close> must match
  \<^verbatim>\<open>\Av[a-fA-F0-9]+\..+\Z\<close>, any other must be an IPv6 address. The result tells whether the
  host passes.\<close>

definition hex_digit :: "char \<Rightarrow> bool" where
  "hex_digit c = (c \<in> set ''abcdefABCDEF0123456789'')"

definition check_bracketed_host :: "(string \<Rightarrow> bool) \<Rightarrow> string \<Rightarrow> bool" where
  "check_bracketed_host ipv6 hostname =
     (case hostname of
        c # rest \<Rightarrow>
          (if c = CHR ''v''
           then takeWhile hex_digit rest \<noteq> [] \<and>
                (case dropWhile hex_digit rest of
                   d # tail \<Rightarrow> d = CHR ''.'' \<and> tail \<noteq> []
                 | [] \<Rightarrow> False)
           else ipv6 hostname)
      | [] \<Rightarrow> ipv6 hostname)"

text \<open>\<^verbatim>\<open>netloc.partition('[')[2].partition(']')[0]\<close>.\<close>

definition bracketed_host :: "string \<Rightarrow> string" where
  "bracketed_host netloc =
     takeWhile (\<lambda>c. c \<noteq> CHR '']'') (drop 1 (dropWhile (\<lambda>c. c \<noteq> CHR ''['') netloc))"

text \<open>\<^verbatim>\<open>urlsplit(url, scheme)\<close>: scheme, network location, path, query and fragment.\<close>

definition urlsplit ::
  "(string \<Rightarrow> bool) \<Rightarrow> string \<Rightarrow> string \<Rightarrow> error + (string \<times> string \<times> string \<times> string \<times> string)"
where
  "urlsplit ipv6 url0 scheme0 =
     (case split_scheme (clean_url url0) (clean_scheme scheme0) of
        (scheme, url1) \<Rightarrow>
     (case (if take 2 url1 = ''//''
            then (case splitnetloc url1 of
                    (netloc, url2) \<Rightarrow>
                      if (CHR ''['' \<in> set netloc \<and> CHR '']'' \<notin> set netloc) \<or>
                         (CHR '']'' \<in> set netloc \<and> CHR ''['' \<notin> set netloc)
                      then Inl ValueError
                      else if CHR ''['' \<in> set netloc \<and> CHR '']'' \<in> set netloc \<and>
                              \<not> check_bracketed_host ipv6 (bracketed_host netloc)
                      then Inl ValueError
                      else Inr (netloc, url2))
            else Inr ('''', url1)) of
        Inl e \<Rightarrow> Inl e
      | Inr (netloc, url2) \<Rightarrow>
          (let (url3, fragment) =
                 (if CHR ''#'' \<in> set url2 then split_once CHR ''#'' url2 else (url2, ''''));
               (url4, query) =
                 (if CHR ''?'' \<in> set url3 then split_once CHR ''?'' url3 else (url3, ''''))
           in Inr (scheme, netloc, url4, query, fragment))))"

text \<open>\<^verbatim>\<open>_splitparams\<close> for a path that has a semicolon: the parameters start at the first
  semicolon of the last segment; without one there, there are none.\<close>

definition splitparams :: "string \<Rightarrow> string \<times> string" where
  "splitparams urlstr =
     (let last_segment = rev (takeWhile (\<lambda>c. c \<noteq> CHR ''/'') (rev urlstr));
          front = take (length urlstr - length last_segment) urlstr
      in if CHR '';'' \<in> set last_segment
         then (front @ takeWhile (\<lambda>c. c \<noteq> CHR '';'') last_segment,
               drop 1 (dropWhile (\<lambda>c. c \<noteq> CHR '';'') last_segment))
         else (urlstr, ''''))"

definition urlparse ::
  "(string \<Rightarrow> bool) \<Rightarrow> string \<Rightarrow> string \<Rightarrow>
     error + (string \<times> string \<times> string \<times> string \<times> string \<times> string)"
where
  "urlparse ipv6 urlstr scheme =
     (case urlsplit ipv6 urlstr scheme of
        Inl e \<Rightarrow> Inl e
      | Inr (scheme, netloc, urlstr, query, fragment) \<Rightarrow>
          (if scheme \<in> set uses_params \<and> CHR '';'' \<in> set urlstr
           then (case splitparams urlstr of
                   (urlstr, params) \<Rightarrow> Inr (scheme, netloc, urlstr, params, query, fragment))
           else Inr (scheme, netloc, urlstr, '''', query, fragment)))"

definition urlunsplit :: "string \<times> string \<times> string \<times> string \<times> string \<Rightarrow> string" where
  "urlunsplit = (\<lambda>(scheme, netloc, urlstr, query, fragment).
     (let urlstr = (if netloc \<noteq> [] \<or> (scheme \<noteq> [] \<and> scheme \<in> set uses_netloc) \<or> take 2 urlstr = ''//''
                 then ''//'' @ netloc @ (if urlstr \<noteq> [] \<and> take 1 urlstr \<noteq> ''/'' then ''/'' @ urlstr else urlstr)
                 else urlstr);
          urlstr = (if scheme \<noteq> [] then scheme @ '':'' @ urlstr else urlstr);
          urlstr = (if query \<noteq> [] then urlstr @ ''?'' @ query else urlstr);
          urlstr = (if fragment \<noteq> [] then urlstr @ ''#'' @ fragment else urlstr)
      in urlstr))"

definition urlunparse ::
  "string \<times> string \<times> string \<times> string \<times> string \<times> string \<Rightarrow> string"
where
  "urlunparse = (\<lambda>(scheme, netloc, urlstr, params, query, fragment).
     urlunsplit (scheme, netloc, (if params \<noteq> [] then urlstr @ '';'' @ params else urlstr),
                 query, fragment))"

text \<open>The loop over the segments: \<^verbatim>\<open>..\<close> takes the last resolved segment off, if there is
  one, \<^verbatim>\<open>.\<close> is passed over, any other segment is appended.\<close>

fun resolve_segments :: "string list \<Rightarrow> string list \<Rightarrow> string list" where
  "resolve_segments [] resolved_path = resolved_path"
| "resolve_segments (seg # rest) resolved_path =
     (if seg = ''..'' then resolve_segments rest (butlast resolved_path)
      else if seg = ''.'' then resolve_segments rest resolved_path
      else resolve_segments rest (resolved_path @ [seg]))"

text \<open>\<^verbatim>\<open>segments[1:-1] = filter(None, segments[1:-1])\<close>: the empty segments go, the first and
  the last segment apart.\<close>

definition filter_inner :: "string list \<Rightarrow> string list" where
  "filter_inner segments =
     (if length segments < 2 then segments
      else hd segments # filter (\<lambda>s. s \<noteq> []) (butlast (tl segments)) @ [last segments])"

definition urljoin :: "(string \<Rightarrow> bool) \<Rightarrow> string \<Rightarrow> string \<Rightarrow> error + string" where
  "urljoin ipv6 base urlstr =
     (if base = [] then Inr urlstr
      else if urlstr = [] then Inr base
      else case urlparse ipv6 base '''' of
        Inl e \<Rightarrow> Inl e
      | Inr (bscheme, bnetloc, bpath, bparams, bquery, bfragment) \<Rightarrow>
     (case urlparse ipv6 urlstr bscheme of
        Inl e \<Rightarrow> Inl e
      | Inr (scheme, netloc, path, params, query, fragment) \<Rightarrow>
          if scheme \<noteq> bscheme \<or> scheme \<notin> set uses_relative then Inr urlstr
          else if scheme \<in> set uses_netloc \<and> netloc \<noteq> []
          then Inr (urlunparse (scheme, netloc, path, params, query, fragment))
          else
            (let netloc = (if scheme \<in> set uses_netloc then bnetloc else netloc)
             in if path = [] \<and> params = []
                then Inr (urlunparse (scheme, netloc, bpath, bparams,
                                      (if query = [] then bquery else query), fragment))
                else
                  (let base_parts = split_char CHR ''/'' bpath;
                       base_parts = (if last base_parts \<noteq> [] then butlast base_parts
                                     else base_parts);
                       segments = (if take 1 path = ''/'' then split_char CHR ''/'' path
                                   else filter_inner (base_parts @ split_char CHR ''/'' path));
                       resolved_path = resolve_segments segments [];
                       resolved_path = (if last segments \<in> set [''.'', ''..'']
                                        then resolved_path @ [''''] else resolved_path)
                   in Inr (urlunparse (scheme, netloc,
                                       (if join ''/'' resolved_path = [] then ''/''
                                        else join ''/'' resolved_path),
                                       params, query, fragment))))))"

text \<open>The scheme that \<^verbatim>\<open>urlsplit\<close> finds in a URL, empty when it finds none. A URL is
  absolute when it has a scheme; a base URL allows relative references when its scheme is one
  of \<^verbatim>\<open>uses_relative\<close>.\<close>

definition url_scheme :: "string \<Rightarrow> string" where
  "url_scheme urlstr = fst (split_scheme (clean_url urlstr) '''')"

definition absolute :: "string \<Rightarrow> bool" where
  "absolute urlstr = (url_scheme urlstr \<noteq> [])"

definition allows_relative :: "string \<Rightarrow> bool" where
  "allows_relative base = (url_scheme base \<noteq> [] \<and> url_scheme base \<in> set uses_relative)"

text \<open>A page whose image sources are relative in several ways, or have a scheme of their
  own.\<close>

definition soup_gallery :: node where
  "soup_gallery = Tag ''[document]'' []
     [Tag ''img'' [(''src'', ''photos/a.jpg'')] [],
      Tag ''div'' [(''class'', ''image-gallery'')]
        [Tag ''img'' [(''src'', ''../img/b.png'')] [],
         Tag ''img'' [(''data-src'', ''//cdn.example.com/route.jpg'')] [],
         Tag ''img'' [(''src'', ''data:image/png;base64,AAAA'')] [],
         Tag ''img'' [(''src'', ''photos/a.jpg'')] [],
         Tag ''img'' [(''src'', ''http://other.example/x.jpg?s=1'')] []]]"

definition fetch_gallery :: "nat get_page" where
  "fetch_gallery u n = (Some soup_gallery, Suc n)"

section \<open>Properties of the tree search\<close>

lemma find_first_None_iff:
  "find_first P t = None \<longleftrightarrow> (\<forall>e \<in> set (descendants t). \<not> P e)"
proof -
  have "find_first P t = None \<longleftrightarrow> filter P (descendants t) = []"
    by (simp add: find_first_def find_all_def split: list.splits)
  then show ?thesis by (simp add: filter_empty_conv)
qed

lemma first_match_None:
  "(\<forall>P \<in> set Ps. find_first P soup = None) \<Longrightarrow> first_match Ps soup = None"
  by (induction Ps) auto

section \<open>The user-ratings extractor emits only positive star counts\<close>

lemma ratings_loop_eq:
  "ratings_loop ws acc =
     acc @ map (\<lambda>(e, p). rating_data e p) (filter (\<lambda>(e, p). 0 < filled_stars e) ws)"
  by (induction ws arbitrary: acc) auto

text \<open>
  Claim C1. For every document, every rating that \<open>extract_user_ratings\<close> emits has the key
  \<open>stars\<close>, with a value greater than 0; the ratings emitted are those of the widgets whose
  filled-star count is positive, in scan order, so a widget with no filled star gives no
  rating.
\<close>

theorem extract_user_ratings_stars_positive:
  "(\<forall>r \<in> set (extract_user_ratings soup). \<exists>n. stars r = Some n \<and> 0 < n) \<and>
   extract_user_ratings soup =
     map (\<lambda>(e, p). rating_data e p)
       (filter (\<lambda>(e, p). 0 < filled_stars e) (rating_elements soup))"
  by (auto simp: extract_user_ratings_def ratings_loop_eq rating_data_def rating_elements_def)

text \<open>The document \<open>soup_ratings\<close> has a widget with two filled stars and one with none.\<close>

theorem extract_user_ratings_stars_positive_witness:
  "list_all (\<lambda>r. \<exists>n. stars r = Some n \<and> 0 < n) (extract_user_ratings soup_ratings) \<and>
   map (\<lambda>(e, p). filled_stars e) (rating_elements soup_ratings) = [2, 0] \<and>
   extract_user_ratings soup_ratings = [\<lparr>stars = Some 2, user = Some ''Ann'', comment = None\<rparr>]"
proof -
  have a: "map (\<lambda>(e, p). filled_stars e) (rating_elements soup_ratings) = [2, 0]"
    by code_simp
  have b: "extract_user_ratings soup_ratings =
             [\<lparr>stars = Some 2, user = Some ''Ann'', comment = None\<rparr>]"
    by code_simp
  from extract_user_ratings_stars_positive [of soup_ratings]
  have c: "list_all (\<lambda>r. \<exists>n. stars r = Some n \<and> 0 < n) (extract_user_ratings soup_ratings)"
    unfolding list_all_iff by (rule conjunct1)
  show ?thesis
    using a b c by (intro conjI)
qed

section \<open>The grade is the text of the first marker found\<close>

lemma difficulty_first_match:
  "extract_route_basic_info soup ''difficulty'' =
     Some (case first_match grade_selectors soup of
             Some e \<Rightarrow> get_text_strip '''' e | None \<Rightarrow> ''N/A'')"
  by (simp add: extract_route_basic_info_def grade_selectors_def or_else_def Let_def
        split: option.splits)

text \<open>
  Claim C7. For every document, \<open>extract_route_basic_info\<close> sets \<open>difficulty\<close> to the text of
  the element found by the first selector that finds one, tried in the order: the three
  grade-scale classes, then the heading-style marker; if none finds an element, and so for
  every document without any grade marker, \<open>difficulty\<close> is \<^verbatim>\<open>N/A\<close>. (A match is non-empty
  when the search returns an element; the element's text is taken as it is.)
\<close>

theorem extract_route_basic_info_difficulty:
  "extract_route_basic_info soup ''difficulty'' =
     Some (case first_match grade_selectors soup of
             Some e \<Rightarrow> get_text_strip '''' e | None \<Rightarrow> ''N/A'') \<and>
   ((\<forall>e \<in> set (descendants soup). \<forall>P \<in> set grade_selectors. \<not> P e) \<longrightarrow>
      extract_route_basic_info soup ''difficulty'' = Some ''N/A'')"
proof (intro conjI impI)
  show "extract_route_basic_info soup ''difficulty'' =
     Some (case first_match grade_selectors soup of
             Some e \<Rightarrow> get_text_strip '''' e | None \<Rightarrow> ''N/A'')"
    by (rule difficulty_first_match)
next
  assume "\<forall>e \<in> set (descendants soup). \<forall>P \<in> set grade_selectors. \<not> P e"
  then have "\<forall>P \<in> set grade_selectors. find_first P soup = None"
    by (auto simp: find_first_None_iff)
  then have "first_match grade_selectors soup = None"
    by (rule first_match_None)
  then show "extract_route_basic_info soup ''difficulty'' = Some ''N/A''"
    by (simp add: difficulty_first_match)
qed

text \<open>In \<open>soup_hueco\<close> the second grade-scale class and the heading marker are present, and
  the grade-scale class wins; \<open>soup_plain\<close> has no marker.\<close>

theorem extract_route_basic_info_difficulty_witness:
  "extract_route_basic_info soup_hueco ''difficulty'' = Some ''V8'' \<and>
   list_all (\<lambda>e. list_all (\<lambda>P. \<not> P e) grade_selectors) (descendants soup_plain) \<and>
   extract_route_basic_info soup_plain ''difficulty'' = Some ''N/A''"
proof -
  have a: "first_match grade_selectors soup_hueco =
             Some (Tag ''span'' [(''class'', ''rateHueco'')] [NavigableString '' V8 ''])"
    by code_simp
  have b: "get_text_strip ''''
             (Tag ''span'' [(''class'', ''rateHueco'')] [NavigableString '' V8 '']) = ''V8''"
    by code_simp
  have c: "list_all (\<lambda>e. list_all (\<lambda>P. \<not> P e) grade_selectors) (descendants soup_plain)"
    by code_simp
  then have c': "\<forall>e \<in> set (descendants soup_plain). \<forall>P \<in> set grade_selectors. \<not> P e"
    by (simp add: list_all_iff)
  from extract_route_basic_info_difficulty [of soup_hueco] a b
  have d: "extract_route_basic_info soup_hueco ''difficulty'' = Some ''V8''"
    by simp
  from extract_route_basic_info_difficulty [of soup_plain] c'
  have e: "extract_route_basic_info soup_plain ''difficulty'' = Some ''N/A''"
    by blast
  show ?thesis
    using c d e by (intro conjI)
qed

section \<open>The description fallback\<close>

text \<open>
  Claim C3, as stated, fails for an empty content block: the block of
  \<open>soup_empty_description\<close> is found, and the extractor returns its text, the empty string,
  not the fallback literal.
\<close>

theorem extract_description_empty_block_counterexample:
  "find_first (is_tag_class ''div'' ''fr-view'') soup_empty_description =
     Some (Tag ''div'' [(''class'', ''fr-view'')] []) \<and>
   fst (extract_description soup_empty_description) = '''' \<and>
   fst (extract_description soup_empty_description) \<noteq> ''No description available''"
  by code_simp

text \<open>
  Claim C3, amended. For every document in which neither description selector (the content
  class, then the content-block identifier) finds an element, \<open>extract_description\<close> returns
  the literal \<^verbatim>\<open>No description available\<close> and leaves the document as it is; when a selector
  finds a block, the result is the text of that block without its scripts and styles,
  which is the empty string for a block without text.
\<close>

theorem extract_description_fallback:
  "(find_first (is_tag_class ''div'' ''fr-view'') soup = None \<and>
    find_first (is_tag_id ''div'' ''route-description'') soup = None \<longrightarrow>
      extract_description soup = (''No description available'', soup)) \<and>
   (or_else (find_first (is_tag_class ''div'' ''fr-view'') soup)
            (find_first (is_tag_id ''div'' ''route-description'') soup) = Some d \<longrightarrow>
      fst (extract_description soup) = get_text_strip '' '' (decompose_scripts d) \<and>
      (all_strings (decompose_scripts d) = [] \<longrightarrow> fst (extract_description soup) = ''''))"
  by (auto simp: extract_description_def or_else_def Let_def get_text_strip_def
        split: option.splits)

theorem extract_description_fallback_witness:
  "find_first (is_tag_class ''div'' ''fr-view'') soup_plain = None \<and>
   find_first (is_tag_id ''div'' ''route-description'') soup_plain = None \<and>
   extract_description soup_plain = (''No description available'', soup_plain) \<and>
   or_else (find_first (is_tag_class ''div'' ''fr-view'') soup_empty_description)
           (find_first (is_tag_id ''div'' ''route-description'') soup_empty_description)
     = Some (Tag ''div'' [(''class'', ''fr-view'')] []) \<and>
   all_strings (decompose_scripts (Tag ''div'' [(''class'', ''fr-view'')] [])) = [] \<and>
   fst (extract_description soup_empty_description) = ''''"
proof -
  have a: "find_first (is_tag_class ''div'' ''fr-view'') soup_plain = None"
    by code_simp
  have b: "find_first (is_tag_id ''div'' ''route-description'') soup_plain = None"
    by code_simp
  have c: "or_else (find_first (is_tag_class ''div'' ''fr-view'') soup_empty_description)
             (find_first (is_tag_id ''div'' ''route-description'') soup_empty_description)
           = Some (Tag ''div'' [(''class'', ''fr-view'')] [])"
    by code_simp
  have d: "all_strings (decompose_scripts (Tag ''div'' [(''class'', ''fr-view'')] [])) = []"
    by code_simp
  from extract_description_fallback [of soup_plain] a b
  have e1: "extract_description soup_plain = (''No description available'', soup_plain)"
    by blast
  from extract_description_fallback [of soup_empty_description
        "Tag ''div'' [(''class'', ''fr-view'')] []"] c d
  have e2: "fst (extract_description soup_empty_description) = ''''"
    by blast
  show ?thesis
    using a b c d e1 e2 by (intro conjI)
qed

section \<open>Latitude and longitude are set together\<close>

lemma coords_loop_other_fields:
  "area_hierarchy (coords_loop metas loc) = area_hierarchy loc \<and>
   elevation (coords_loop metas loc) = elevation loc"
  by (induction metas arbitrary: loc) (auto simp: Let_def split: option.splits)

lemma coords_loop_no_match:
  "\<forall>m \<in> set metas. coord_search (case get m ''content'' of Some v \<Rightarrow> v | None \<Rightarrow> '''') = None
   \<Longrightarrow> coords_loop metas loc = loc"
  by (induction metas arbitrary: loc) (auto simp: Let_def)

lemma coords_loop_first_match:
  "\<forall>m \<in> set pre. coord_search (case get m ''content'' of Some v \<Rightarrow> v | None \<Rightarrow> '''') = None
   \<Longrightarrow> coord_search (case get m ''content'' of Some v \<Rightarrow> v | None \<Rightarrow> '''') = Some (g1, g2)
   \<Longrightarrow> coords_loop (pre @ m # post) loc =
         loc\<lparr>latitude := Some (float_of_string g1), longitude := Some (float_of_string g2)\<rparr>"
  by (induction pre arbitrary: loc) (auto simp: Let_def)

lemma coords_loop_both:
  "(latitude loc = None \<longleftrightarrow> longitude loc = None) \<Longrightarrow>
   (latitude (coords_loop metas loc) = None \<longleftrightarrow> longitude (coords_loop metas loc) = None)"
  by (induction metas arbitrary: loc) (auto simp: Let_def split: option.splits)

lemma coords_loop_match:
  "\<exists>m \<in> set metas. coord_search (case get m ''content'' of Some v \<Rightarrow> v | None \<Rightarrow> '''') \<noteq> None
   \<Longrightarrow> latitude (coords_loop metas loc) \<noteq> None"
  by (induction metas arbitrary: loc) (auto simp: Let_def split: option.splits)

text \<open>The later steps of the extractor (breadcrumbs, elevation) leave the coordinates as
  the scan of the \<^verbatim>\<open>meta\<close> tags set them.\<close>

lemma extract_location_coords:
  "latitude (extract_location soup) =
     latitude (coords_loop (find_all (is_tag ''meta'') soup)
        \<lparr>latitude = None, longitude = None, area_hierarchy = None, elevation = None\<rparr>) \<and>
   longitude (extract_location soup) =
     longitude (coords_loop (find_all (is_tag ''meta'') soup)
        \<lparr>latitude = None, longitude = None, area_hierarchy = None, elevation = None\<rparr>)"
  by (simp add: extract_location_def Let_def split: option.splits list.splits prod.splits)

text \<open>
  Claim C8. For every document, the location that \<open>extract_location\<close> returns has latitude
  and longitude both absent or both set: both are absent exactly when no \<^verbatim>\<open>meta\<close> content
  matches the coordinate pattern, and otherwise both come from the match in the first content
  string that has one (the contents before it have none, those after it are not looked at).
\<close>

theorem extract_location_coordinates_together:
  "(latitude (extract_location soup) = None \<longleftrightarrow> longitude (extract_location soup) = None) \<and>
   (latitude (extract_location soup) = None \<longleftrightarrow>
      (\<forall>c \<in> set (meta_contents soup). coord_search c = None)) \<and>
   (meta_contents soup = pre @ c # post \<and> (\<forall>x \<in> set pre. coord_search x = None) \<and>
    coord_search c = Some (g1, g2) \<longrightarrow>
      latitude (extract_location soup) = Some (float_of_string g1) \<and>
      longitude (extract_location soup) = Some (float_of_string g2))"
proof (intro conjI impI)
  let ?metas = "find_all (is_tag ''meta'') soup"
  let ?l0 = "\<lparr>latitude = None, longitude = None, area_hierarchy = None, elevation = None\<rparr>"
  let ?content = "\<lambda>m. case get m ''content'' of Some v \<Rightarrow> v | None \<Rightarrow> ''''"
  show "latitude (extract_location soup) = None \<longleftrightarrow> longitude (extract_location soup) = None"
    using coords_loop_both [of ?l0 ?metas] by (simp add: extract_location_coords)
  show "latitude (extract_location soup) = None \<longleftrightarrow>
          (\<forall>c \<in> set (meta_contents soup). coord_search c = None)"
  proof
    assume a: "latitude (extract_location soup) = None"
    show "\<forall>c \<in> set (meta_contents soup). coord_search c = None"
    proof (rule ccontr)
      assume "\<not> (\<forall>c \<in> set (meta_contents soup). coord_search c = None)"
      then have "\<exists>m \<in> set ?metas. coord_search (?content m) \<noteq> None"
        by (auto simp: meta_contents_def)
      then have "latitude (coords_loop ?metas ?l0) \<noteq> None"
        by (rule coords_loop_match)
      with a show False by (simp add: extract_location_coords)
    qed
  next
    assume "\<forall>c \<in> set (meta_contents soup). coord_search c = None"
    then have "\<forall>m \<in> set ?metas. coord_search (?content m) = None"
      by (simp add: meta_contents_def)
    then have "coords_loop ?metas ?l0 = ?l0"
      by (rule coords_loop_no_match)
    then show "latitude (extract_location soup) = None"
      by (simp add: extract_location_coords)
  qed
next
  let ?metas = "find_all (is_tag ''meta'') soup"
  let ?l0 = "\<lparr>latitude = None, longitude = None, area_hierarchy = None, elevation = None\<rparr>"
  let ?content = "\<lambda>m. case get m ''content'' of Some v \<Rightarrow> v | None \<Rightarrow> ''''"
  assume h: "meta_contents soup = pre @ c # post \<and> (\<forall>x \<in> set pre. coord_search x = None) \<and>
    coord_search c = Some (g1, g2)"
  then have "map ?content ?metas = pre @ c # post"
    by (simp add: meta_contents_def)
  then obtain ms m ms' where split: "?metas = ms @ m # ms'" and
    pre: "pre = map ?content ms" and c: "c = ?content m"
    by (auto simp: map_eq_append_conv map_eq_Cons_conv)
  from h pre have "\<forall>x \<in> set ms. coord_search (?content x) = None"
    by simp
  moreover from h c have "coord_search (?content m) = Some (g1, g2)"
    by simp
  ultimately have "coords_loop (ms @ m # ms') ?l0 =
      ?l0\<lparr>latitude := Some (float_of_string g1), longitude := Some (float_of_string g2)\<rparr>"
    by (rule coords_loop_first_match)
  with split have eq: "coords_loop ?metas ?l0 =
      ?l0\<lparr>latitude := Some (float_of_string g1), longitude := Some (float_of_string g2)\<rparr>"
    by simp
  show "latitude (extract_location soup) = Some (float_of_string g1)"
    by (simp add: extract_location_coords eq)
  show "longitude (extract_location soup) = Some (float_of_string g2)"
    by (simp add: extract_location_coords eq)
qed

text \<open>In \<open>soup_location\<close> the first \<^verbatim>\<open>meta\<close> tag has no content, the second has one without
  coordinates, the third holds \<^verbatim>\<open>37.5, -119.25\<close> and the fourth \<^verbatim>\<open>1,2\<close>.\<close>

theorem extract_location_coordinates_together_witness:
  "meta_contents soup_location =
     ['''', ''A classic line''] @ ''at 37.5, -119.25 north'' # [''1,2''] \<and>
   list_all (\<lambda>x. coord_search x = None) ['''', ''A classic line''] \<and>
   coord_search ''at 37.5, -119.25 north'' = Some (''37.5'', ''-119.25'') \<and>
   latitude (extract_location soup_location) = Some (Finite (75 / 2)) \<and>
   longitude (extract_location soup_location) = Some (Finite (- 477 / 4))"
proof -
  have a: "meta_contents soup_location =
             ['''', ''A classic line''] @ ''at 37.5, -119.25 north'' # [''1,2'']"
    by code_simp
  have b: "list_all (\<lambda>x. coord_search x = None) ['''', ''A classic line'']"
    by code_simp
  then have b': "\<forall>x \<in> set ['''', ''A classic line'']. coord_search x = None"
    by (simp add: list_all_iff)
  have c: "coord_search ''at 37.5, -119.25 north'' = Some (''37.5'', ''-119.25'')"
    by code_simp
  have d: "float_of_string ''37.5'' = Finite (75 / 2)"
    by code_simp
  have e: "float_of_string ''-119.25'' = Finite (- 477 / 4)"
    by code_simp
  from extract_location_coordinates_together
         [of soup_location "['''', ''A classic line'']" "''at 37.5, -119.25 north''"
             "[''1,2'']" "''37.5''" "''-119.25''"] a b' c
  have "latitude (extract_location soup_location) = Some (float_of_string ''37.5'') \<and>
        longitude (extract_location soup_location) = Some (float_of_string ''-119.25'')"
    by blast
  with d e have f: "latitude (extract_location soup_location) = Some (Finite (75 / 2)) \<and>
        longitude (extract_location soup_location) = Some (Finite (- 477 / 4))"
    by simp
  show ?thesis
    using a b c f by (intro conjI) simp_all
qed

section \<open>The images are resolved, distinct and in first-occurrence order\<close>

lemma set_first_occurrences: "set (first_occurrences xs) = set xs"
  by (induction xs) auto

lemma distinct_first_occurrences: "distinct (first_occurrences xs)"
  by (induction xs) (auto simp: set_first_occurrences)

text \<open>The step of the loops on the result list, iterated over resolved URLs.\<close>

lemma append_new_first_occurrences:
  "foldl (\<lambda>acc u. if u \<notin> set acc then acc @ [u] else acc) acc us =
     acc @ filter (\<lambda>u. u \<notin> set acc) (first_occurrences us)"
proof (induction us arbitrary: acc)
  case Nil
  then show ?case by simp
next
  case (Cons u us)
  show ?case
  proof (cases "u \<in> set acc")
    case True
    then have "filter (\<lambda>y. y \<notin> set acc) (filter (\<lambda>y. y \<noteq> u) (first_occurrences us)) =
               filter (\<lambda>y. y \<notin> set acc) (first_occurrences us)"
      by (auto intro: filter_cong)
    with True Cons.IH [of acc] show ?thesis by simp
  next
    case False
    have "filter (\<lambda>y. y \<notin> set (acc @ [u])) (first_occurrences us) =
          filter (\<lambda>y. y \<notin> set acc) (filter (\<lambda>y. y \<noteq> u) (first_occurrences us))"
      by (auto intro: filter_cong)
    with False Cons.IH [of "acc @ [u]"] show ?thesis by simp
  qed
qed

lemma resolve_all_append:
  "resolve_all uj b (xs @ ys) =
     (case resolve_all uj b xs of
        Inl e \<Rightarrow> Inl e
      | Inr us \<Rightarrow> (case resolve_all uj b ys of Inl e \<Rightarrow> Inl e | Inr vs \<Rightarrow> Inr (us @ vs)))"
  by (induction xs) (auto split: sum.splits)

lemma resolve_all_Inr:
  "resolve_all uj b ss = Inr us \<Longrightarrow>
     length us = length ss \<and> (\<forall>i < length ss. uj b (ss ! i) = Inr (us ! i))"
proof (induction ss arbitrary: us)
  case Nil
  then show ?case by simp
next
  case (Cons s ss)
  then obtain u us' where u: "uj b s = Inr u" and r: "resolve_all uj b ss = Inr us'"
    and us: "us = u # us'"
    by (auto split: sum.splits)
  from Cons.IH [OF r] have ih: "length us' = length ss"
    "\<forall>i < length ss. uj b (ss ! i) = Inr (us' ! i)" by auto
  show ?case
  proof (intro conjI allI impI)
    show "length us = length (s # ss)" using ih us by simp
  next
    fix i assume "i < length (s # ss)"
    then show "uj b ((s # ss) ! i) = Inr (us ! i)"
      using u ih us by (cases i) auto
  qed
qed

lemma resolve_all_set:
  assumes "resolve_all uj b ss = Inr us" and "u \<in> set us"
  shows "\<exists>s \<in> set ss. uj b s = Inr u"
proof -
  from assms(2) obtain i where i: "i < length us" "us ! i = u"
    by (auto simp: in_set_conv_nth)
  from resolve_all_Inr [OF assms(1)] i have "i < length ss" "uj b (ss ! i) = Inr u"
    by auto
  then show ?thesis by (metis nth_mem)
qed

lemma images_inner_eq:
  "images_inner uj b imgs acc =
     (case resolve_all uj b (sources imgs) of
        Inl e \<Rightarrow> Inl e
      | Inr us \<Rightarrow> Inr (foldl (\<lambda>acc u. if u \<notin> set acc then acc @ [u] else acc) acc us))"
proof (induction imgs arbitrary: acc)
  case Nil
  then show ?case by (simp add: sources_def map_filter_simps)
next
  case (Cons img imgs)
  show ?case
  proof (cases "img_src img")
    case None
    then show ?thesis
      using Cons.IH by (simp add: sources_def map_filter_simps)
  next
    case (Some src)
    show ?thesis
    proof (cases "src = []")
      case True
      with Some show ?thesis
        using Cons.IH by (simp add: sources_def map_filter_simps)
    next
      case False
      with Some have s: "sources (img # imgs) = src # sources imgs"
        by (simp add: sources_def map_filter_simps)
      show ?thesis
      proof (cases "uj b src")
        case (Inl e)
        with Some False s show ?thesis by simp
      next
        case (Inr full_url)
        with Some False s Cons.IH show ?thesis
          by (simp split: sum.splits)
      qed
    qed
  qed
qed

lemma images_outer_eq:
  "images_outer uj b soup sels acc =
     (case resolve_all uj b (concat (map (\<lambda>sel. sources (select sel soup)) sels)) of
        Inl e \<Rightarrow> Inl e
      | Inr us \<Rightarrow> Inr (foldl (\<lambda>acc u. if u \<notin> set acc then acc @ [u] else acc) acc us))"
proof (induction sels arbitrary: acc)
  case Nil
  then show ?case by simp
next
  case (Cons sel sels)
  then show ?case
    by (simp add: images_inner_eq resolve_all_append split: sum.splits)
qed

lemma extract_images_eq:
  "extract_images uj soup b =
     (case resolve_all uj b (image_sources soup) of
        Inl e \<Rightarrow> Inl e
      | Inr us \<Rightarrow> Inr (first_occurrences us))"
  by (simp add: extract_images_def images_outer_eq image_sources_def
        append_new_first_occurrences split: sum.splits)


section \<open>The resolver gives absolute URLs on a base with a scheme\<close>

lemma urlsplit_scheme:
  "urlsplit ipv6 urlstr scheme0 = Inr (scheme, netloc, p, q, f) \<Longrightarrow>
     scheme = fst (split_scheme (clean_url urlstr) (clean_scheme scheme0))"
  by (auto simp: urlsplit_def Let_def split: prod.splits if_splits sum.splits)

lemma urlparse_scheme:
  "urlparse ipv6 urlstr scheme0 = Inr (scheme, netloc, p, ps, q, f) \<Longrightarrow>
     scheme = fst (split_scheme (clean_url urlstr) (clean_scheme scheme0))"
  by (auto simp: urlparse_def dest: urlsplit_scheme split: prod.splits if_splits sum.splits)

lemma split_scheme_found:
  "fst (split_scheme urlstr scheme) \<noteq> scheme \<Longrightarrow> fst (split_scheme urlstr []) \<noteq> []"
  by (auto simp: split_scheme_def Let_def lower_def split: if_splits)

lemma scheme_chars_plain:
  "c \<in> set scheme_chars \<Longrightarrow>
     \<not> c0_control_or_space c \<and> \<not> unsafe_url_byte c \<and> c \<noteq> CHR '':''"
  by (auto simp: scheme_chars_def c0_control_or_space_def unsafe_url_byte_def)

lemma url_scheme_prefix:
  assumes "s \<noteq> []" and "ascii_alpha (hd s)" and "\<forall>c \<in> set s. c \<in> set scheme_chars"
    and "lower s = s"
  shows "url_scheme (s @ CHR '':'' # rest) = s"
proof -
  from assms(1) obtain c cs where s: "s = c # cs" by (cases s) auto
  with assms(3) have "\<not> c0_control_or_space c" by (simp add: scheme_chars_plain)
  with s have d: "dropWhile c0_control_or_space (s @ CHR '':'' # rest) = s @ CHR '':'' # rest"
    by simp
  from assms(3) have "filter (\<lambda>c. \<not> unsafe_url_byte c) s = s"
    by (simp add: scheme_chars_plain filter_id_conv)
  with d have c: "clean_url (s @ CHR '':'' # rest) =
                    s @ CHR '':'' # filter (\<lambda>c. \<not> unsafe_url_byte c) rest"
    by (simp add: clean_url_def unsafe_url_byte_def)
  from assms(3) have "\<forall>c \<in> set s. c \<noteq> CHR '':''"
    by (simp add: scheme_chars_plain)
  then have t: "takeWhile (\<lambda>c. c \<noteq> CHR '':'') (s @ CHR '':'' # r) = s" for r
    by (simp add: takeWhile_append2)
  let ?u = "clean_url (s @ CHR '':'' # rest)"
  have p: "takeWhile (\<lambda>c. c \<noteq> CHR '':'') ?u = s"
    unfolding c by (rule t)
  have h: "hd ?u = hd s"
    unfolding c using assms(1) by simp
  have m: "CHR '':'' \<in> set ?u"
    unfolding c by simp
  have "split_scheme ?u [] = (lower s, drop (length s + 1) ?u)"
    unfolding split_scheme_def Let_def p h using m assms by simp
  with assms(4) show ?thesis
    by (simp add: url_scheme_def)
qed

lemma uses_relative_schemes:
  "list_all (\<lambda>s. s = [] \<or> (ascii_alpha (hd s) \<and> list_all (\<lambda>c. c \<in> set scheme_chars) s \<and>
                              lower s = s \<and> clean_scheme s = s)) uses_relative"
  by code_simp

lemma uses_relative_scheme:
  assumes "s \<in> set uses_relative" and "s \<noteq> []"
  shows "ascii_alpha (hd s)" and "\<forall>c \<in> set s. c \<in> set scheme_chars" and "lower s = s"
    and "clean_scheme s = s"
  using assms uses_relative_schemes by (auto simp: list_all_iff)

lemma urlunparse_scheme:
  "scheme \<noteq> [] \<Longrightarrow> \<exists>rest. urlunparse (scheme, netloc, p, ps, q, f) = scheme @ CHR '':'' # rest"
  by (simp add: urlunparse_def urlunsplit_def Let_def)

lemma urljoin_cases:
  assumes "base \<noteq> []" and "urlstr \<noteq> []" and "urljoin ipv6 base urlstr = Inr r"
  shows "\<exists>bscheme bn bp bps bq bf scheme n p ps q f.
           urlparse ipv6 base [] = Inr (bscheme, bn, bp, bps, bq, bf) \<and>
           urlparse ipv6 urlstr bscheme = Inr (scheme, n, p, ps, q, f) \<and>
           ((r = urlstr \<and> (scheme \<noteq> bscheme \<or> scheme \<notin> set uses_relative)) \<or>
            (scheme = bscheme \<and> (\<exists>n' p' ps' q'. r = urlunparse (scheme, n', p', ps', q', f))))"
proof -
  from assms obtain bscheme bn bp bps bq bf where
    b: "urlparse ipv6 base [] = Inr (bscheme, bn, bp, bps, bq, bf)"
    by (cases "urlparse ipv6 base []") (auto simp: urljoin_def)
  with assms obtain scheme n p ps q f where
    u: "urlparse ipv6 urlstr bscheme = Inr (scheme, n, p, ps, q, f)"
    by (cases "urlparse ipv6 urlstr bscheme") (auto simp: urljoin_def)
  from assms b u have
    "(r = urlstr \<and> (scheme \<noteq> bscheme \<or> scheme \<notin> set uses_relative)) \<or>
     (scheme = bscheme \<and> (\<exists>n' p' ps' q'. r = urlunparse (scheme, n', p', ps', q', f)))"
    by (auto simp: urljoin_def Let_def split: if_splits)
  with b u show ?thesis by blast
qed

lemma url_scheme_empty: "url_scheme [] = []"
  by (simp add: url_scheme_def clean_url_def split_scheme_def)

lemma clean_scheme_empty: "clean_scheme [] = []"
  by (simp add: clean_scheme_def)

lemma urljoin_absolute:
  assumes b: "allows_relative base" and j: "urljoin ipv6 base urlstr = Inr r"
  shows "absolute r"
proof -
  from b have bs: "url_scheme base \<noteq> []" and br: "url_scheme base \<in> set uses_relative"
    by (simp_all add: allows_relative_def)
  from bs have bne: "base \<noteq> []" using url_scheme_empty by auto
  show ?thesis
  proof (cases "urlstr = []")
    case True
    with j bne have "r = base" by (simp add: urljoin_def)
    with bs show ?thesis by (simp add: absolute_def)
  next
    case False
    from urljoin_cases [OF bne False j] obtain bscheme bn bp bps bq bf scheme n p ps q f where
      pb: "urlparse ipv6 base [] = Inr (bscheme, bn, bp, bps, bq, bf)" and
      pu: "urlparse ipv6 urlstr bscheme = Inr (scheme, n, p, ps, q, f)" and
      r: "(r = urlstr \<and> (scheme \<noteq> bscheme \<or> scheme \<notin> set uses_relative)) \<or>
          (scheme = bscheme \<and> (\<exists>n' p' ps' q'. r = urlunparse (scheme, n', p', ps', q', f)))"
      by (elim exE conjE)
    from urlparse_scheme [OF pb] have bsch: "bscheme = url_scheme base"
      by (simp add: url_scheme_def clean_scheme_empty)
    with bs br have cs: "clean_scheme bscheme = bscheme"
      by (simp add: uses_relative_scheme)
    from urlparse_scheme [OF pu] cs
    have sch: "scheme = fst (split_scheme (clean_url urlstr) bscheme)" by simp
    from r show ?thesis
    proof
      assume a: "r = urlstr \<and> (scheme \<noteq> bscheme \<or> scheme \<notin> set uses_relative)"
      with bsch br have "scheme \<noteq> bscheme" by auto
      with sch have "fst (split_scheme (clean_url urlstr) []) \<noteq> []"
        by (simp add: split_scheme_found)
      with a show ?thesis by (simp add: absolute_def url_scheme_def)
    next
      assume a: "scheme = bscheme \<and> (\<exists>n' p' ps' q'. r = urlunparse (scheme, n', p', ps', q', f))"
      then obtain n' p' ps' q' where r': "r = urlunparse (bscheme, n', p', ps', q', f)"
        by auto
      from bsch bs have ne: "bscheme \<noteq> []" by simp
      from urlunparse_scheme [OF ne] r' obtain rest where
        "r = bscheme @ CHR '':'' # rest" by metis
      moreover from bsch bs br have "url_scheme (bscheme @ CHR '':'' # rest) = bscheme"
        by (intro url_scheme_prefix uses_relative_scheme) simp_all
      ultimately show ?thesis using ne by (simp add: absolute_def)
    qed
  qed
qed

lemma base_url_allows_relative: "allows_relative base_url"
  by code_simp

lemma scrape_route_images:
  "fst (scrape_route gp uj u w) = Some r \<Longrightarrow>
     \<exists>soup. extract_images uj soup base_url = Inr (images r)"
  by (auto simp: scrape_route_def Let_def split: prod.splits option.splits sum.splits)

lemma extract_images_first_occurrences:
  assumes "extract_images uj soup b = Inr imgs"
  shows "\<exists>urls. resolve_all uj b (image_sources soup) = Inr urls \<and> imgs = first_occurrences urls"
  using assms by (auto simp: extract_images_eq split: sum.splits)

lemma extract_images_distinct:
  assumes "extract_images uj soup b = Inr imgs"
  shows "distinct imgs"
  using extract_images_first_occurrences [OF assms] by (auto simp: distinct_first_occurrences)

lemma extract_images_sources:
  assumes "extract_images uj soup b = Inr imgs"
  shows "\<forall>u \<in> set imgs. \<exists>src \<in> set (image_sources soup). uj b src = Inr u"
proof -
  from extract_images_first_occurrences [OF assms] obtain urls where
    r: "resolve_all uj b (image_sources soup) = Inr urls" and i: "imgs = first_occurrences urls"
    by (elim exE conjE)
  from i resolve_all_set [OF r] show ?thesis
    by (simp add: set_first_occurrences)
qed

lemma extract_images_absolute:
  assumes "extract_images (urljoin ipv6) soup b = Inr imgs" and "allows_relative b"
  shows "\<forall>u \<in> set imgs. absolute u"
proof
  fix u assume "u \<in> set imgs"
  with extract_images_sources [OF assms(1)] obtain src where "urljoin ipv6 b src = Inr u"
    by auto
  with assms(2) show "absolute u" by (rule urljoin_absolute)
qed

text \<open>On the references of the examples that use the stand-in resolver, it returns what
  \<^verbatim>\<open>urljoin\<close> returns.\<close>

lemma urljoin_concat_agrees:
  "list_all (\<lambda>s. urljoin (\<lambda>h. False) base_url s = urljoin_concat base_url s)
     [''/route/1/a'', ''/route/2/b'', ''/area/2/b'', ''/photos/route1.jpg'', ''/img/a.jpg'',
      ''/lazy/b.png'']"
  by code_simp


text \<open>
  Claim C4. For every document and base URL, the list that \<open>extract_images\<close> returns has no
  duplicates; it is the list of the resolved image sources (all selectors in order, each
  non-empty \<^verbatim>\<open>src\<close>, else \<^verbatim>\<open>data-src\<close>, resolved against the base URL by \<^verbatim>\<open>urljoin\<close>) with each
  URL kept at its first occurrence. Every entry is an absolute URL, one with a scheme, when
  the base URL has a scheme that allows relative references; the site's base URL, which is
  the base URL that the program passes, has one, so the images of every route that
  \<open>scrape_route\<close> returns are distinct and absolute. (The resolver returns a relative source
  as it is when the base URL is empty or has no such scheme.)
\<close>

theorem extract_images_distinct_resolved:
  assumes "extract_images (urljoin ipv6) soup b = Inr imgs"
  shows "distinct imgs \<and>
         (\<exists>urls. resolve_all (urljoin ipv6) b (image_sources soup) = Inr urls \<and>
                 imgs = first_occurrences urls) \<and>
         (\<forall>u \<in> set imgs. \<exists>src \<in> set (image_sources soup). urljoin ipv6 b src = Inr u) \<and>
         (allows_relative b \<longrightarrow> (\<forall>u \<in> set imgs. absolute u)) \<and>
         allows_relative base_url \<and>
         (fst (scrape_route gp (urljoin ipv6) route_url w) = Some r \<longrightarrow>
            distinct (images r) \<and> (\<forall>u \<in> set (images r). absolute u))"
proof (intro conjI impI)
  show "distinct imgs"
    using assms by (rule extract_images_distinct)
  show "\<exists>urls. resolve_all (urljoin ipv6) b (image_sources soup) = Inr urls \<and>
                 imgs = first_occurrences urls"
    using assms by (rule extract_images_first_occurrences)
  show "\<forall>u \<in> set imgs. \<exists>src \<in> set (image_sources soup). urljoin ipv6 b src = Inr u"
    using assms by (rule extract_images_sources)
  show "allows_relative base_url"
    by (rule base_url_allows_relative)
next
  assume "allows_relative b"
  with assms show "\<forall>u \<in> set imgs. absolute u"
    by (rule extract_images_absolute)
next
  assume "fst (scrape_route gp (urljoin ipv6) route_url w) = Some r"
  from scrape_route_images [OF this]
  obtain page where p: "extract_images (urljoin ipv6) page base_url = Inr (images r)"
    by (elim exE)
  then show "distinct (images r)"
    by (rule extract_images_distinct)
  from p base_url_allows_relative show "\<forall>u \<in> set (images r). absolute u"
    by (rule extract_images_absolute)
qed

text \<open>The sources of \<open>soup_gallery\<close> are a relative path (twice), a path that goes up, a
  reference that starts with a network location, and two that have a scheme; resolved
  against the site's base URL they give five absolute URLs, and the route scraped from the
  page has them as its images. \<open>soup_images\<close> has the same source with a leading slash
  twice, a lazy-load source, an image with an empty \<^verbatim>\<open>src\<close> and one without any source.\<close>

theorem extract_images_distinct_resolved_witness:
  "image_sources soup_gallery =
     [''photos/a.jpg'', ''photos/a.jpg'', ''../img/b.png'', ''//cdn.example.com/route.jpg'',
      ''data:image/png;base64,AAAA'', ''photos/a.jpg'', ''http://other.example/x.jpg?s=1''] \<and>
   extract_images (urljoin (\<lambda>h. False)) soup_gallery base_url =
     Inr [''https://www.mountainproject.com/photos/a.jpg'',
          ''https://www.mountainproject.com/img/b.png'',
          ''https://cdn.example.com/route.jpg'',
          ''data:image/png;base64,AAAA'',
          ''http://other.example/x.jpg?s=1''] \<and>
   distinct [''https://www.mountainproject.com/photos/a.jpg'',
             ''https://www.mountainproject.com/img/b.png'',
             ''https://cdn.example.com/route.jpg'',
             ''data:image/png;base64,AAAA'',
             ''http://other.example/x.jpg?s=1''] \<and>
   list_all absolute
            [''https://www.mountainproject.com/photos/a.jpg'',
             ''https://www.mountainproject.com/img/b.png'',
             ''https://cdn.example.com/route.jpg'',
             ''data:image/png;base64,AAAA'',
             ''http://other.example/x.jpg?s=1''] \<and>
   map url_scheme
            [''https://www.mountainproject.com/photos/a.jpg'',
             ''https://www.mountainproject.com/img/b.png'',
             ''https://cdn.example.com/route.jpg'',
             ''data:image/png;base64,AAAA'',
             ''http://other.example/x.jpg?s=1''] =
     [''https'', ''https'', ''https'', ''data'', ''http''] \<and>
   map_option images
     (fst (scrape_route fetch_gallery (urljoin (\<lambda>h. False))
             ''https://www.mountainproject.com/route/1/a'' 0)) =
     Some [''https://www.mountainproject.com/photos/a.jpg'',
           ''https://www.mountainproject.com/img/b.png'',
           ''https://cdn.example.com/route.jpg'',
           ''data:image/png;base64,AAAA'',
           ''http://other.example/x.jpg?s=1''] \<and>
   (\<exists>r. fst (scrape_route fetch_gallery (urljoin (\<lambda>h. False))
                ''https://www.mountainproject.com/route/1/a'' 0) = Some r \<and>
        distinct (images r) \<and> list_all absolute (images r)) \<and>
   extract_images (urljoin (\<lambda>h. False)) soup_images base_url =
     Inr [''https://www.mountainproject.com/photos/route1.jpg'',
          ''https://www.mountainproject.com/img/a.jpg'',
          ''https://www.mountainproject.com/lazy/b.png'']"
proof -
  let ?imgs = "[''https://www.mountainproject.com/photos/a.jpg'',
                ''https://www.mountainproject.com/img/b.png'',
                ''https://cdn.example.com/route.jpg'',
                ''data:image/png;base64,AAAA'',
                ''http://other.example/x.jpg?s=1'']"
  have a: "extract_images (urljoin (\<lambda>h. False)) soup_gallery base_url = Inr ?imgs"
    by code_simp
  have b: "image_sources soup_gallery =
     [''photos/a.jpg'', ''photos/a.jpg'', ''../img/b.png'', ''//cdn.example.com/route.jpg'',
      ''data:image/png;base64,AAAA'', ''photos/a.jpg'', ''http://other.example/x.jpg?s=1'']"
    by code_simp
  note t = extract_images_distinct_resolved
             [OF a, where gp = fetch_gallery and w = 0 and r = route_unrated
                and route_url = "''https://www.mountainproject.com/route/1/a''"]
  from t have r: "allows_relative base_url"
    by blast
  from t have d: "distinct ?imgs"
    by (rule conjunct1)
  from t r have e: "\<forall>u \<in> set ?imgs. absolute u"
    by blast
  from e have e': "list_all absolute ?imgs"
    by (simp only: list_all_iff)
  have f: "map url_scheme ?imgs = [''https'', ''https'', ''https'', ''data'', ''http'']"
    by code_simp
  have g: "map_option images
     (fst (scrape_route fetch_gallery (urljoin (\<lambda>h. False))
             ''https://www.mountainproject.com/route/1/a'' 0)) = Some ?imgs"
    by code_simp
  from g obtain rt where rt: "fst (scrape_route fetch_gallery (urljoin (\<lambda>h. False))
             ''https://www.mountainproject.com/route/1/a'' 0) = Some rt"
    by (cases "fst (scrape_route fetch_gallery (urljoin (\<lambda>h. False))
             ''https://www.mountainproject.com/route/1/a'' 0)") simp_all
  from extract_images_distinct_resolved
         [OF a, where gp = fetch_gallery and w = 0 and r = rt
            and route_url = "''https://www.mountainproject.com/route/1/a''"] rt
  have "distinct (images rt) \<and> (\<forall>u \<in> set (images rt). absolute u)"
    by blast
  then have "distinct (images rt) \<and> list_all absolute (images rt)"
    by (simp add: list_all_iff)
  with rt have h: "\<exists>r. fst (scrape_route fetch_gallery (urljoin (\<lambda>h. False))
                ''https://www.mountainproject.com/route/1/a'' 0) = Some r \<and>
        distinct (images r) \<and> list_all absolute (images r)"
    by (intro exI [of _ rt] conjI) simp_all
  have i: "extract_images (urljoin (\<lambda>h. False)) soup_images base_url =
     Inr [''https://www.mountainproject.com/photos/route1.jpg'',
          ''https://www.mountainproject.com/img/a.jpg'',
          ''https://www.mountainproject.com/lazy/b.png'']"
    by code_simp
  show ?thesis
    using b a d e' f g h i by (intro conjI)
qed

section \<open>The route link discoverer\<close>

lemma links_loop_eq:
  "links_loop uj links acc =
     (case resolve_all uj base_url (route_hrefs links) of
        Inl e \<Rightarrow> Inl e
      | Inr us \<Rightarrow> Inr (acc @ us))"
proof (induction links arbitrary: acc)
  case Nil
  then show ?case by (simp add: route_hrefs_def map_filter_simps)
next
  case (Cons link links)
  show ?case
  proof (cases "get link ''href''")
    case None
    then show ?thesis
      using Cons.IH by (simp add: route_hrefs_def map_filter_simps)
  next
    case (Some href)
    show ?thesis
    proof (cases "contains ''/route/'' href")
      case False
      with Some show ?thesis
        using Cons.IH by (simp add: route_hrefs_def map_filter_simps)
    next
      case True
      with Some have s: "route_hrefs (link # links) = href # route_hrefs links"
        by (simp add: route_hrefs_def map_filter_simps)
      show ?thesis
      proof (cases "uj base_url href")
        case (Inl e)
        with Some True s show ?thesis by simp
      next
        case (Inr full_url)
        with Some True s Cons.IH show ?thesis
          by (simp split: sum.splits)
      qed
    qed
  qed
qed

lemma resolve_all_total:
  "\<forall>s \<in> set ss. \<exists>u. uj b s = Inr u \<Longrightarrow> \<exists>us. resolve_all uj b ss = Inr us"
  by (induction ss) auto

lemma resolve_all_set_eq:
  assumes "resolve_all uj b ss = Inr us"
  shows "set us = {u. \<exists>s \<in> set ss. uj b s = Inr u}"
proof (intro set_eqI iffI)
  fix u assume "u \<in> set us"
  with resolve_all_set [OF assms] show "u \<in> {u. \<exists>s \<in> set ss. uj b s = Inr u}"
    by simp
next
  fix u assume "u \<in> {u. \<exists>s \<in> set ss. uj b s = Inr u}"
  then obtain s where s: "s \<in> set ss" "uj b s = Inr u" by auto
  then obtain i where i: "i < length ss" "ss ! i = s"
    by (auto simp: in_set_conv_nth)
  with resolve_all_Inr [OF assms] s have "i < length us" "us ! i = u"
    by auto
  then show "u \<in> set us" by (metis nth_mem)
qed

lemma set_route_hrefs:
  "set (route_hrefs links) = {h. \<exists>a \<in> set links. get a ''href'' = Some h \<and> contains ''/route/'' h}"
  by (induction links)
     (auto simp: route_hrefs_def map_filter_simps split: option.splits if_splits)

text \<open>
  Claim C6. For every area-listing document (the fetch of the area URL gives it), every way
  \<open>list_set\<close> of listing a set, and no maximum count: if the hrefs with \<^verbatim>\<open>/route/\<close> can all be
  resolved, \<open>find_routes_from_area\<close> returns a list without duplicates whose elements are
  exactly the URLs that \<^verbatim>\<open>urljoin\<close> gives, on the site's base URL, for the hrefs of the
  anchors that contain \<^verbatim>\<open>/route/\<close>.
\<close>

theorem find_routes_from_area_exact:
  assumes "gp area_url w = (Some soup, w')"
    and "\<forall>xs. distinct (list_set xs) \<and> set (list_set xs) = set xs"
    and "\<forall>a \<in> set (find_all is_a_href soup). \<forall>h. get a ''href'' = Some h \<and> contains ''/route/'' h
           \<longrightarrow> (\<exists>u. uj base_url h = Inr u)"
  shows "\<exists>urls. find_routes_from_area gp uj list_set area_url None w = (Inr urls, w') \<and>
           distinct urls \<and>
           set urls = {u. \<exists>a \<in> set (find_all is_a_href soup). \<exists>h.
                            get a ''href'' = Some h \<and> contains ''/route/'' h \<and>
                            uj base_url h = Inr u}"
proof -
  let ?links = "find_all is_a_href soup"
  from assms(3) have "\<forall>s \<in> set (route_hrefs ?links). \<exists>u. uj base_url s = Inr u"
    by (auto simp: set_route_hrefs)
  then obtain us where us: "resolve_all uj base_url (route_hrefs ?links) = Inr us"
    using resolve_all_total by blast
  then have l: "links_loop uj ?links [] = Inr us"
    by (simp add: links_loop_eq)
  with assms(1) have r: "find_routes_from_area gp uj list_set area_url None w = (Inr (list_set us), w')"
    by (simp add: find_routes_from_area_def)
  have "set (list_set us) = set us" "distinct (list_set us)"
    using assms(2) by auto
  moreover have "set us = {u. \<exists>a \<in> set ?links. \<exists>h.
                            get a ''href'' = Some h \<and> contains ''/route/'' h \<and>
                            uj base_url h = Inr u}"
    unfolding resolve_all_set_eq [OF us] set_route_hrefs by auto
  ultimately show ?thesis using r by auto
qed

text \<open>The anchors of \<open>soup_area\<close> have the hrefs \<^verbatim>\<open>/route/1/a\<close>, \<^verbatim>\<open>/route/1/a\<close> and \<^verbatim>\<open>/area/2/b\<close>;
  a fourth anchor has no href.\<close>

theorem find_routes_from_area_exact_witness:
  "fetch_area ''https://www.mountainproject.com/area/9/z'' 0 = (Some soup_area, 1) \<and>
   List.map_filter (\<lambda>a. get a ''href'') (find_all is_a_href soup_area) =
     [''/route/1/a'', ''/route/1/a'', ''/area/2/b''] \<and>
   find_routes_from_area fetch_area urljoin_concat remdups
       ''https://www.mountainproject.com/area/9/z'' None 0 =
     (Inr [''https://www.mountainproject.com/route/1/a''], 1) \<and>
   (\<exists>urls. find_routes_from_area fetch_area urljoin_concat remdups
       ''https://www.mountainproject.com/area/9/z'' None 0 = (Inr urls, 1) \<and> distinct urls)"
proof -
  have a: "fetch_area ''https://www.mountainproject.com/area/9/z'' 0 = (Some soup_area, 1)"
    by (simp add: fetch_area_def)
  have b: "\<forall>xs :: string list. distinct (remdups xs) \<and> set (remdups xs) = set xs"
    by simp
  have c: "\<forall>a \<in> set (find_all is_a_href soup_area). \<forall>h.
             get a ''href'' = Some h \<and> contains ''/route/'' h
               \<longrightarrow> (\<exists>u. urljoin_concat base_url h = Inr u)"
    by (simp add: urljoin_concat_def)
  have d: "List.map_filter (\<lambda>a. get a ''href'') (find_all is_a_href soup_area) =
     [''/route/1/a'', ''/route/1/a'', ''/area/2/b'']"
    by code_simp
  have e: "find_routes_from_area fetch_area urljoin_concat remdups
       ''https://www.mountainproject.com/area/9/z'' None 0 =
     (Inr [''https://www.mountainproject.com/route/1/a''], 1)"
    by code_simp
  from find_routes_from_area_exact
         [where gp = fetch_area and uj = urljoin_concat and list_set = remdups
            and soup = soup_area and w = 0 and w' = 1
            and area_url = "''https://www.mountainproject.com/area/9/z''"] a b c
  have f: "\<exists>urls. find_routes_from_area fetch_area urljoin_concat remdups
       ''https://www.mountainproject.com/area/9/z'' None 0 = (Inr urls, 1) \<and> distinct urls"
    by blast
  show ?thesis
    using a d e f by (intro conjI)
qed

text \<open>
  Claim C9. With \<open>max_routes\<close> equal to 0, \<open>find_routes_from_area\<close> does what it does without
  a maximum: nothing is cut, and when the document is fetched and its route links resolve,
  the result is the whole de-duplicated list.
\<close>

theorem find_routes_from_area_max_zero:
  "find_routes_from_area gp uj list_set area_url (Some 0) w =
     find_routes_from_area gp uj list_set area_url None w \<and>
   (gp area_url w = (Some soup, w') \<and> links_loop uj (find_all is_a_href soup) [] = Inr links \<longrightarrow>
      find_routes_from_area gp uj list_set area_url (Some 0) w = (Inr (list_set links), w'))"
  by (auto simp: find_routes_from_area_def split: option.splits sum.splits prod.splits)

text \<open>\<open>soup_two_routes\<close> links two routes, one of them twice: a maximum of 0 returns both
  URLs, where a maximum of 1 returns one.\<close>

theorem find_routes_from_area_max_zero_witness:
  "find_routes_from_area fetch_two urljoin_concat remdups ''area'' (Some 0) 0 =
     find_routes_from_area fetch_two urljoin_concat remdups ''area'' None 0 \<and>
   fetch_two ''area'' 0 = (Some soup_two_routes, 1) \<and>
   links_loop urljoin_concat (find_all is_a_href soup_two_routes) [] =
     Inr [''https://www.mountainproject.com/route/1/a'',
          ''https://www.mountainproject.com/route/2/b'',
          ''https://www.mountainproject.com/route/1/a''] \<and>
   find_routes_from_area fetch_two urljoin_concat remdups ''area'' (Some 0) 0 =
     (Inr [''https://www.mountainproject.com/route/2/b'',
           ''https://www.mountainproject.com/route/1/a''], 1) \<and>
   find_routes_from_area fetch_two urljoin_concat remdups ''area'' (Some 1) 0 =
     (Inr [''https://www.mountainproject.com/route/2/b''], 1)"
proof -
  have a: "fetch_two ''area'' 0 = (Some soup_two_routes, 1)"
    by (simp add: fetch_two_def)
  have b: "links_loop urljoin_concat (find_all is_a_href soup_two_routes) [] =
     Inr [''https://www.mountainproject.com/route/1/a'',
          ''https://www.mountainproject.com/route/2/b'',
          ''https://www.mountainproject.com/route/1/a'']"
    by code_simp
  note t = find_routes_from_area_max_zero
             [of fetch_two urljoin_concat remdups "''area''" 0 soup_two_routes 1
                 "[''https://www.mountainproject.com/route/1/a'',
                   ''https://www.mountainproject.com/route/2/b'',
                   ''https://www.mountainproject.com/route/1/a'']"]
  from t have c: "find_routes_from_area fetch_two urljoin_concat remdups ''area'' (Some 0) 0 =
     find_routes_from_area fetch_two urljoin_concat remdups ''area'' None 0"
    by (rule conjunct1)
  from t a b have "find_routes_from_area fetch_two urljoin_concat remdups ''area'' (Some 0) 0 =
     (Inr (remdups [''https://www.mountainproject.com/route/1/a'',
                    ''https://www.mountainproject.com/route/2/b'',
                    ''https://www.mountainproject.com/route/1/a'']), 1)"
    by blast
  then have d: "find_routes_from_area fetch_two urljoin_concat remdups ''area'' (Some 0) 0 =
     (Inr [''https://www.mountainproject.com/route/2/b'',
           ''https://www.mountainproject.com/route/1/a''], 1)"
    by simp
  have e: "find_routes_from_area fetch_two urljoin_concat remdups ''area'' (Some 1) 0 =
     (Inr [''https://www.mountainproject.com/route/2/b''], 1)"
    by code_simp
  show ?thesis
    using a b c d e by (intro conjI)
qed

section \<open>The batch driver skips what fails and keeps the order\<close>

lemma scrape_loop_eq:
  "fst (scrape_loop gp uj urls routes w) = routes @ List.map_filter snd (attempts gp uj urls w)"
proof (induction urls arbitrary: routes w)
  case Nil
  then show ?case by (simp add: map_filter_simps)
next
  case (Cons u urls)
  then show ?case
    by (cases "scrape_route gp uj u w") (auto simp: map_filter_simps split: option.splits)
qed

lemma scrape_route_url:
  "scrape_route gp uj u w = (Some r, w') \<Longrightarrow> url r = u"
  by (auto simp: scrape_route_def Let_def split: prod.splits option.splits sum.splits)

lemma attempts_urls: "map fst (attempts gp uj urls w) = urls"
  by (induction urls arbitrary: w) (auto split: prod.splits)

lemma attempts_url:
  "(u, Some r) \<in> set (attempts gp uj urls w) \<Longrightarrow> url r = u"
proof (induction urls arbitrary: w)
  case Nil
  then show ?case by simp
next
  case (Cons v urls)
  then show ?case
    by (cases "scrape_route gp uj v w") (auto dest: scrape_route_url)
qed

lemma map_url_successes:
  "\<forall>(u, r) \<in> set xs. \<forall>x. r = Some x \<longrightarrow> url x = u \<Longrightarrow>
   map url (List.map_filter snd xs) = map fst (filter (\<lambda>(u, r). r \<noteq> None) xs)"
  by (induction xs) (auto simp: map_filter_simps split: option.splits)

lemma failed_url_absent:
  assumes "distinct (map fst xs)" and "(v, None) \<in> set xs"
  shows "v \<notin> set (map fst (filter (\<lambda>(u, r). r \<noteq> None) xs))"
proof
  assume "v \<in> set (map fst (filter (\<lambda>(u, r). r \<noteq> None) xs))"
  then obtain r where r: "(v, r) \<in> set xs" "r \<noteq> None" by auto
  from assms(1) r(1) assms(2) have "r = None"
    by (rule eq_key_imp_eq_value)
  with r(2) show False by simp
qed

text \<open>
  Claim C5. For every list of route URLs, the batch output is the list of the routes of the
  attempts that succeeded, in the order of the list: the URLs of the output are the URLs of
  the successful attempts, in order, and when the URLs of the list are distinct, the URL of
  a failed attempt is the URL of no route of the output. An attempt fails when the fetch
  fails and when an extractor raises; when the fetch gives a document and no extractor
  raises, the attempt gives a route that carries its URL.
\<close>

theorem scrape_multiple_routes_skips_failures:
  "fst (scrape_multiple_routes gp uj urls w) = List.map_filter snd (attempts gp uj urls w) \<and>
   map fst (attempts gp uj urls w) = urls \<and>
   map url (fst (scrape_multiple_routes gp uj urls w)) =
     map fst (filter (\<lambda>(u, r). r \<noteq> None) (attempts gp uj urls w)) \<and>
   (distinct urls \<and> (v, None) \<in> set (attempts gp uj urls w) \<longrightarrow>
      v \<notin> set (map url (fst (scrape_multiple_routes gp uj urls w)))) \<and>
   (fst (gp u w0) = None \<longrightarrow> fst (scrape_route gp uj u w0) = None) \<and>
   (fst (gp u w0) = Some soup \<and> extract_images uj (snd (extract_description soup)) base_url = Inl e
      \<longrightarrow> fst (scrape_route gp uj u w0) = None) \<and>
   (fst (gp u w0) = Some soup \<and> extract_images uj (snd (extract_description soup)) base_url = Inr imgs
      \<longrightarrow> (\<exists>r. fst (scrape_route gp uj u w0) = Some r \<and> url r = u))"
proof (intro conjI)
  show a: "fst (scrape_multiple_routes gp uj urls w) = List.map_filter snd (attempts gp uj urls w)"
    by (simp add: scrape_multiple_routes_def scrape_loop_eq)
  show "map fst (attempts gp uj urls w) = urls"
    by (rule attempts_urls)
  have "\<forall>(u, r) \<in> set (attempts gp uj urls w). \<forall>x. r = Some x \<longrightarrow> url x = u"
    by (auto dest: attempts_url)
  then show b: "map url (fst (scrape_multiple_routes gp uj urls w)) =
     map fst (filter (\<lambda>(u, r). r \<noteq> None) (attempts gp uj urls w))"
    unfolding a by (rule map_url_successes)
  show "distinct urls \<and> (v, None) \<in> set (attempts gp uj urls w) \<longrightarrow>
      v \<notin> set (map url (fst (scrape_multiple_routes gp uj urls w)))"
  proof
    assume h: "distinct urls \<and> (v, None) \<in> set (attempts gp uj urls w)"
    then have "distinct (map fst (attempts gp uj urls w))"
      by (simp add: attempts_urls)
    moreover from h have "(v, None) \<in> set (attempts gp uj urls w)" by (rule conjunct2)
    ultimately have "v \<notin> set (map fst (filter (\<lambda>(u, r). r \<noteq> None) (attempts gp uj urls w)))"
      by (rule failed_url_absent)
    then show "v \<notin> set (map url (fst (scrape_multiple_routes gp uj urls w)))"
      unfolding b .
  qed
  show "fst (gp u w0) = None \<longrightarrow> fst (scrape_route gp uj u w0) = None"
    by (cases "gp u w0") (auto simp: scrape_route_def)
  show "fst (gp u w0) = Some soup \<and> extract_images uj (snd (extract_description soup)) base_url = Inl e
      \<longrightarrow> fst (scrape_route gp uj u w0) = None"
    by (cases "gp u w0") (auto simp: scrape_route_def Let_def split: prod.splits)
  show "fst (gp u w0) = Some soup \<and> extract_images uj (snd (extract_description soup)) base_url = Inr imgs
      \<longrightarrow> (\<exists>r. fst (scrape_route gp uj u w0) = Some r \<and> url r = u)"
    by (cases "gp u w0") (auto simp: scrape_route_def Let_def split: prod.splits)
qed

text \<open>A batch of three URLs in which the fetch of the second fails.\<close>

theorem scrape_multiple_routes_skips_failures_witness:
  "fst (fetch_example ''https://www.mountainproject.com/route/2/b'' 1) = None \<and>
   fst (scrape_route fetch_example urljoin_concat ''https://www.mountainproject.com/route/2/b'' 1)
     = None \<and>
   map (\<lambda>(u, r). (u, r \<noteq> None))
     (attempts fetch_example urljoin_concat
        [''https://www.mountainproject.com/route/1/a'',
         ''https://www.mountainproject.com/route/2/b'',
         ''https://www.mountainproject.com/route/3/c''] 0) =
     [(''https://www.mountainproject.com/route/1/a'', True),
      (''https://www.mountainproject.com/route/2/b'', False),
      (''https://www.mountainproject.com/route/3/c'', True)] \<and>
   map url (fst (scrape_multiple_routes fetch_example urljoin_concat
        [''https://www.mountainproject.com/route/1/a'',
         ''https://www.mountainproject.com/route/2/b'',
         ''https://www.mountainproject.com/route/3/c''] 0)) =
     [''https://www.mountainproject.com/route/1/a'',
      ''https://www.mountainproject.com/route/3/c''] \<and>
   length (fst (scrape_multiple_routes fetch_example urljoin_concat
        [''https://www.mountainproject.com/route/1/a'',
         ''https://www.mountainproject.com/route/2/b'',
         ''https://www.mountainproject.com/route/3/c''] 0)) = 2 \<and>
   ''https://www.mountainproject.com/route/2/b'' \<notin>
     set (map url (fst (scrape_multiple_routes fetch_example urljoin_concat
        [''https://www.mountainproject.com/route/1/a'',
         ''https://www.mountainproject.com/route/2/b'',
         ''https://www.mountainproject.com/route/3/c''] 0)))"
proof -
  let ?urls = "[''https://www.mountainproject.com/route/1/a'',
         ''https://www.mountainproject.com/route/2/b'',
         ''https://www.mountainproject.com/route/3/c'']"
  note t = scrape_multiple_routes_skips_failures
             [where gp = fetch_example and uj = urljoin_concat and urls = ?urls and w = 0
                and v = "''https://www.mountainproject.com/route/2/b''"
                and u = "''https://www.mountainproject.com/route/2/b''" and ?w0.0 = 1]
  have a: "fst (fetch_example ''https://www.mountainproject.com/route/2/b'' 1) = None"
    by (simp add: fetch_example_def)
  from t a have b: "fst (scrape_route fetch_example urljoin_concat
                      ''https://www.mountainproject.com/route/2/b'' 1) = None"
    by blast
  have c: "map (\<lambda>(u, r). (u, r \<noteq> None)) (attempts fetch_example urljoin_concat ?urls 0) =
     [(''https://www.mountainproject.com/route/1/a'', True),
      (''https://www.mountainproject.com/route/2/b'', False),
      (''https://www.mountainproject.com/route/3/c'', True)]"
    by code_simp
  from t have d: "map url (fst (scrape_multiple_routes fetch_example urljoin_concat ?urls 0)) =
     map fst (filter (\<lambda>(u, r). r \<noteq> None) (attempts fetch_example urljoin_concat ?urls 0))"
    by blast
  have e: "map fst (filter (\<lambda>(u, r). r \<noteq> None) (attempts fetch_example urljoin_concat ?urls 0)) =
     [''https://www.mountainproject.com/route/1/a'',
      ''https://www.mountainproject.com/route/3/c'']"
    by code_simp
  from d e have f: "map url (fst (scrape_multiple_routes fetch_example urljoin_concat ?urls 0)) =
     [''https://www.mountainproject.com/route/1/a'',
      ''https://www.mountainproject.com/route/3/c'']"
    by simp
  from f have g: "length (fst (scrape_multiple_routes fetch_example urljoin_concat ?urls 0)) = 2"
    by (metis length_map length_Cons list.size(3) Suc_1 One_nat_def)
  have h: "distinct ?urls" by simp
  have i: "(''https://www.mountainproject.com/route/2/b'', None)
             \<in> set (attempts fetch_example urljoin_concat ?urls 0)"
    by code_simp
  from t h i have j: "''https://www.mountainproject.com/route/2/b'' \<notin>
         set (map url (fst (scrape_multiple_routes fetch_example urljoin_concat ?urls 0)))"
    by blast
  show ?thesis
    using a b c f g j by (intro conjI)
qed

section \<open>Properties of the floating-point model\<close>

lemma pow2_powi: "pow2 e = 2 powi e"
  unfolding pow2_def power_int_def by (simp add: inverse_eq_divide power_one_over)

lemma pow2_pos: "0 < pow2 e"
  by (simp add: pow2_powi)

lemma pow2_add: "pow2 (a + b) = pow2 a * pow2 b"
  by (simp add: pow2_powi power_int_add)

lemma pow2_mono: "a \<le> b \<Longrightarrow> pow2 a \<le> pow2 b"
  by (simp add: pow2_powi power_int_increasing)

lemma pow2_strict_mono: "a < b \<Longrightarrow> pow2 a < pow2 b"
  by (simp add: pow2_powi power_int_strict_increasing)

lemma pow2_le_imp_le: "pow2 a \<le> pow2 b \<Longrightarrow> a \<le> b"
  using pow2_strict_mono [of b a] by (cases "a \<le> b") auto

lemma pow2_of_nat: "0 \<le> e \<Longrightarrow> pow2 e = of_int (2 ^ nat e)"
  by (simp add: pow2_def)

lemma bit_length_bounds:
  "0 < n \<Longrightarrow> 1 \<le> bit_length n \<and> pow2 (bit_length n - 1) \<le> of_int n \<and> of_int n < pow2 (bit_length n)"
proof (induction n rule: bit_length.induct)
  case (1 n)
  show ?case
  proof (cases "n = 1")
    case True
    have "bit_length 1 = 1"
      by (simp add: bit_length.simps)
    with True show ?thesis by (simp add: pow2_def)
  next
    case False
    with "1.prems" have h: "0 < n div 2" by simp
    with "1.IH" "1.prems" have ih: "1 \<le> bit_length (n div 2)"
      "pow2 (bit_length (n div 2) - 1) \<le> of_int (n div 2)"
      "of_int (n div 2) < pow2 (bit_length (n div 2))"
      by auto
    have bl: "bit_length n = 1 + bit_length (n div 2)"
      using "1.prems" by (subst bit_length.simps) simp
    have lo: "(of_int (2 * (n div 2)) :: rat) \<le> of_int n"
      unfolding of_int_le_iff by simp
    have hi: "(of_int n :: rat) \<le> of_int (2 * (n div 2) + 1)"
      unfolding of_int_le_iff by simp
    obtain k :: nat where k: "bit_length (n div 2) = int k"
      using ih(1) by (metis nonneg_int_cases order_trans zero_le_one)
    from ih(3) k have "n div 2 < 2 ^ k"
      by (simp add: pow2_def)
    then have "n div 2 + 1 \<le> 2 ^ k" by simp
    then have "2 * (n div 2) + 2 \<le> 2 * 2 ^ k" by simp
    then have "2 * (n div 2) + 1 < 2 * 2 ^ k" by simp
    then have "(of_int (2 * (n div 2) + 1) :: rat) < of_int (2 * 2 ^ k)"
      unfolding of_int_less_iff .
    also have "of_int (2 * 2 ^ k) = pow2 (1 + int k)"
      by (simp add: pow2_def nat_add_distrib)
    finally have up: "(of_int n :: rat) < pow2 (bit_length n)"
      using hi bl k by simp
    have "pow2 (bit_length n - 1) = 2 * pow2 (bit_length (n div 2) - 1)"
      using pow2_add [of 1 "bit_length (n div 2) - 1"] bl by (simp add: pow2_def)
    also have "\<dots> \<le> 2 * of_int (n div 2)"
      using ih(2) by simp
    also have "\<dots> \<le> of_int n"
      using lo by simp
    finally have low: "pow2 (bit_length n - 1) \<le> of_int n" .
    from bl ih(1) up low show ?thesis by simp
  qed
qed

lemma ilog2_bounds:
  assumes "0 < q"
  shows "pow2 (ilog2 q) \<le> q \<and> q < pow2 (ilog2 q + 1)"
proof -
  obtain a b where ab: "quotient_of q = (a, b)" by (cases "quotient_of q")
  then have b: "0 < b" and q: "q = of_int a / of_int b"
    using quotient_of_denom_pos quotient_of_div by auto
  with assms have a: "0 < a"
    by (simp add: zero_less_divide_iff)
  let ?k = "bit_length a - bit_length b"
  note ba = bit_length_bounds [OF a]
  note bb = bit_length_bounds [OF b]
  have bpos: "(0::rat) < of_int b" using b by simp
  have lower: "pow2 (?k - 1) \<le> q"
  proof -
    have "pow2 (?k - 1) * of_int b \<le> pow2 (?k - 1) * pow2 (bit_length b)"
      using bb pow2_pos [of "?k - 1"] by (simp add: less_imp_le)
    also have "\<dots> = pow2 (bit_length a - 1)"
      using pow2_add [of "?k - 1" "bit_length b"] by (simp add: algebra_simps)
    also have "\<dots> \<le> of_int a" using ba by simp
    finally show ?thesis
      using bpos by (simp add: q pos_le_divide_eq)
  qed
  have upper: "q < pow2 (?k + 1)"
  proof -
    have "of_int a < pow2 (bit_length a)" using ba by simp
    also have "\<dots> = pow2 (?k + 1) * pow2 (bit_length b - 1)"
      using pow2_add [of "?k + 1" "bit_length b - 1"] by (simp add: algebra_simps)
    also have "\<dots> \<le> pow2 (?k + 1) * of_int b"
      using bb pow2_pos [of "?k + 1"] by simp
    finally show ?thesis
      using bpos by (simp add: q pos_divide_less_eq)
  qed
  show ?thesis
  proof (cases "pow2 ?k \<le> q")
    case True
    then have "ilog2 q = ?k" by (simp add: ilog2_def ab Let_def)
    with True upper show ?thesis by simp
  next
    case False
    then have "ilog2 q = ?k - 1" by (simp add: ilog2_def ab Let_def)
    with False lower show ?thesis by simp
  qed
qed

lemma round_half_even_bounds:
  "of_int (round_half_even x) - 1 / 2 \<le> x \<and> x \<le> of_int (round_half_even x) + 1 / 2"
proof -
  let ?n = "\<lfloor>x\<rfloor>"
  have f: "of_int ?n \<le> x" "x < of_int ?n + 1" by linarith+
  consider "x - of_int ?n < 1 / 2" | "1 / 2 < x - of_int ?n" | "x - of_int ?n = 1 / 2"
    by linarith
  then show ?thesis
  proof cases
    case 1
    then have "round_half_even x = ?n" by (simp add: round_half_even_def Let_def)
    then have "(of_int (round_half_even x) :: rat) = of_int ?n" by simp
    with f 1 show ?thesis by linarith
  next
    case 2
    then have "round_half_even x = ?n + 1" by (simp add: round_half_even_def Let_def)
    then have "(of_int (round_half_even x) :: rat) = of_int ?n + 1" by simp
    with f 2 show ?thesis by linarith
  next
    case 3
    then have "round_half_even x = ?n \<or> round_half_even x = ?n + 1"
      by (simp add: round_half_even_def Let_def)
    then have "(of_int (round_half_even x) :: rat) = of_int ?n \<or>
               (of_int (round_half_even x) :: rat) = of_int ?n + 1" by auto
    with f 3 show ?thesis by linarith
  qed
qed

lemma round_half_even_ge: "of_int n \<le> x \<Longrightarrow> n \<le> round_half_even x"
proof -
  assume "of_int n \<le> x"
  then have "n \<le> \<lfloor>x\<rfloor>" by (simp add: le_floor_iff)
  then show ?thesis by (auto simp: round_half_even_def Let_def)
qed

lemma round_half_even_le: "x \<le> of_int n \<Longrightarrow> round_half_even x \<le> n"
proof -
  assume h: "x \<le> of_int n"
  show ?thesis
  proof (cases "x = of_int n")
    case True
    then show ?thesis by (simp add: round_half_even_def Let_def)
  next
    case False
    with h have "x < of_int n" by simp
    then have "\<lfloor>x\<rfloor> < n" by (simp add: floor_less_iff)
    then have "\<lfloor>x\<rfloor> + 1 \<le> n" by simp
    then show ?thesis by (auto simp: round_half_even_def Let_def)
  qed
qed

lemma to_double_ge_pow2:
  assumes "0 < q" and "pow2 k \<le> q" and "- 1074 \<le> k" and "ilog2 q - 52 \<le> k"
  shows "pow2 k \<le> to_double q"
proof -
  let ?e = "max (ilog2 q - 52) (- 1074)"
  have ke: "0 \<le> k - ?e" using assms(3,4) by simp
  have "pow2 (k - ?e) * pow2 ?e = pow2 k"
    using pow2_add [of "k - ?e" ?e] by simp
  then have "pow2 (k - ?e) \<le> q / pow2 ?e"
    using assms(2) pow2_pos [of ?e] by (simp add: pos_le_divide_eq)
  then have "(of_int (2 ^ nat (k - ?e)) :: rat) \<le> q / pow2 ?e"
    using ke by (simp add: pow2_def)
  then have "2 ^ nat (k - ?e) \<le> round_half_even (q / pow2 ?e)"
    by (rule round_half_even_ge)
  then have "(of_int (2 ^ nat (k - ?e)) :: rat) \<le> of_int (round_half_even (q / pow2 ?e))"
    unfolding of_int_le_iff .
  then have "pow2 (k - ?e) \<le> of_int (round_half_even (q / pow2 ?e))"
    using ke by (simp add: pow2_def)
  then have "pow2 (k - ?e) * pow2 ?e \<le> of_int (round_half_even (q / pow2 ?e)) * pow2 ?e"
    using pow2_pos [of ?e] by simp
  then show ?thesis
    using assms(1) \<open>pow2 (k - ?e) * pow2 ?e = pow2 k\<close> by (simp add: to_double_def Let_def)
qed

lemma to_double_le_pow2:
  assumes "0 < q" and "q \<le> pow2 k" and "- 1074 \<le> k"
  shows "to_double q \<le> pow2 k"
proof -
  let ?e = "max (ilog2 q - 52) (- 1074)"
  have "pow2 (ilog2 q) \<le> pow2 k"
    using ilog2_bounds [OF assms(1)] assms(2) by simp
  then have "ilog2 q \<le> k"
    by (rule pow2_le_imp_le)
  then have ke: "0 \<le> k - ?e" using assms(3) by simp
  have eq: "pow2 (k - ?e) * pow2 ?e = pow2 k"
    using pow2_add [of "k - ?e" ?e] by simp
  then have "q / pow2 ?e \<le> pow2 (k - ?e)"
    using assms(2) pow2_pos [of ?e] by (simp add: pos_divide_le_eq)
  then have "q / pow2 ?e \<le> (of_int (2 ^ nat (k - ?e)) :: rat)"
    using ke by (simp add: pow2_def)
  then have "round_half_even (q / pow2 ?e) \<le> 2 ^ nat (k - ?e)"
    by (rule round_half_even_le)
  then have "(of_int (round_half_even (q / pow2 ?e)) :: rat) \<le> of_int (2 ^ nat (k - ?e))"
    unfolding of_int_le_iff .
  then have "of_int (round_half_even (q / pow2 ?e)) \<le> pow2 (k - ?e)"
    using ke by (simp add: pow2_def)
  then have "of_int (round_half_even (q / pow2 ?e)) * pow2 ?e \<le> pow2 (k - ?e) * pow2 ?e"
    using pow2_pos [of ?e] by simp
  then show ?thesis
    using assms(1) eq by (simp add: to_double_def Let_def)
qed

lemma to_double_ge_one:
  assumes "1 \<le> q"
  shows "1 \<le> to_double q"
proof -
  have q: "0 < q" using assms by simp
  note b = ilog2_bounds [OF q]
  have "pow2 0 < pow2 (ilog2 q + 1)"
    using b assms by (simp add: pow2_def)
  then have k: "0 \<le> ilog2 q"
    using pow2_mono [of "ilog2 q + 1" 0] by (cases "0 \<le> ilog2 q") auto
  have "pow2 (ilog2 q) \<le> to_double q"
    using to_double_ge_pow2 [OF q, of "ilog2 q"] b k by simp
  moreover have "pow2 0 \<le> pow2 (ilog2 q)"
    using k by (rule pow2_mono)
  ultimately show ?thesis by (simp add: pow2_def)
qed

lemma to_double_nonneg: "0 \<le> q \<Longrightarrow> 0 \<le> to_double q"
proof -
  assume h: "0 \<le> q"
  let ?e = "max (ilog2 q - 52) (- 1074)"
  have "0 \<le> q / pow2 ?e" using h pow2_pos [of ?e] by simp
  then have "0 \<le> round_half_even (q / pow2 ?e)"
    using round_half_even_ge [of 0 "q / pow2 ?e"] by simp
  then show ?thesis
    using pow2_pos [of ?e] by (simp add: to_double_def Let_def less_imp_le)
qed

lemma truediv_ge_one:
  assumes "0 < b" and "b \<le> a" and "truediv a b = Inr m"
  shows "gt_zero m"
proof -
  let ?q = "(of_int a :: rat) / of_int b"
  have bq: "(0::rat) < of_int b" using assms(1) by simp
  have "(of_int b :: rat) \<le> of_int a" using assms(2) by simp
  then have q: "1 \<le> ?q" using bq by (simp add: pos_le_divide_eq)
  then have "0 \<le> ?q" by linarith
  then have "\<bar>?q\<bar> = ?q" by (rule abs_of_nonneg)
  with q have v: "1 \<le> to_double \<bar>?q\<bar>"
    using to_double_ge_one [of ?q] by simp
  have neg: "\<not> ((a < 0) \<noteq> (b < 0))" using assms(1,2) by simp
  from assms(3) v neg assms(1) have "m = Finite (to_double \<bar>?q\<bar>)"
    by (auto simp: truediv_def Let_def split: if_splits)
  with v show ?thesis by simp
qed

lemma truediv_bounded:
  assumes "0 < b" and "\<bar>(of_int a :: rat) / of_int b\<bar> \<le> 2 ^ 1023"
  shows "\<exists>m. truediv a b = Inr m"
proof -
  let ?q = "\<bar>(of_int a :: rat) / of_int b\<bar>"
  have p: "pow2 1023 = 2 ^ 1023" by (simp add: pow2_def)
  have "to_double ?q \<le> 2 ^ 1023"
  proof (cases "?q = 0")
    case True
    then show ?thesis by (simp add: to_double_def)
  next
    case False
    then have "0 < ?q" by simp
    from to_double_le_pow2 [OF this, of 1023] assms(2) p show ?thesis by simp
  qed
  moreover have "(2::rat) ^ 1023 < 2 ^ 1024"
    by (rule power_strict_increasing) simp_all
  ultimately have "\<not> 2 ^ 1024 \<le> to_double ?q" by linarith
  with assms(1) show ?thesis
    by (simp add: truediv_def Let_def)
qed

lemma stars_sum_ge_length:
  "\<forall>x \<in> set rs. \<exists>n. stars x = Some n \<and> 0 < n \<Longrightarrow> int (length rs) \<le> stars_sum rs"
proof (induction rs)
  case Nil
  then show ?case by (simp add: stars_sum_def)
next
  case (Cons r rs)
  then obtain n where n: "stars r = Some n" "0 < n" by auto
  from Cons have "int (length rs) \<le> stars_sum rs" by simp
  with n show ?case by (simp add: stars_sum_def)
qed

lemma stars_sum_bounded:
  "\<forall>x \<in> set rs. \<forall>n. stars x = Some n \<longrightarrow> \<bar>n\<bar> \<le> B \<Longrightarrow> 0 \<le> B \<Longrightarrow>
   \<bar>stars_sum rs\<bar> \<le> B * int (length rs)"
proof (induction rs)
  case Nil
  then show ?case by (simp add: stars_sum_def)
next
  case (Cons r rs)
  then have ih: "\<bar>stars_sum rs\<bar> \<le> B * int (length rs)" by simp
  have "\<bar>case stars r of Some s \<Rightarrow> s | None \<Rightarrow> 0\<bar> \<le> B"
    using Cons.prems by (cases "stars r") auto
  with ih show ?case
    by (simp add: stars_sum_def algebra_simps)
qed

lemma avg_rating_eq:
  "avg_rating rs =
     (if rs \<noteq> [] then
        (case truediv (stars_sum rs) (int (length rs)) of
           Inl e \<Rightarrow> Inl e | Inr x \<Rightarrow> Inr (PyFloat x))
      else Inr (PyInt 0))"
  by (simp add: avg_rating_def stars_sum_def)

lemma avg_rating_bounded:
  assumes "\<forall>x \<in> set rs. \<forall>n. stars x = Some n \<longrightarrow> \<bar>n\<bar> \<le> 2 ^ 1023"
  shows "\<exists>v. avg_rating rs = Inr v"
proof (cases "rs = []")
  case True
  then show ?thesis by (simp add: avg_rating_eq)
next
  case False
  let ?n = "int (length rs)"
  have n: "0 < ?n" using False by simp
  have "\<bar>stars_sum rs\<bar> \<le> 2 ^ 1023 * ?n"
    using stars_sum_bounded [OF assms] by simp
  then have "(of_int \<bar>stars_sum rs\<bar> :: rat) \<le> of_int (2 ^ 1023 * ?n)"
    unfolding of_int_le_iff .
  then have "\<bar>(of_int (stars_sum rs) :: rat)\<bar> \<le> 2 ^ 1023 * of_int ?n"
    by simp
  then have "\<bar>(of_int (stars_sum rs) :: rat) / of_int ?n\<bar> \<le> 2 ^ 1023"
    using n by (simp add: pos_divide_le_eq)
  from truediv_bounded [OF n this] obtain m where "truediv (stars_sum rs) ?n = Inr m" ..
  with False show ?thesis by (simp add: avg_rating_eq)
qed

lemma csv_field_avg_rating:
  "csv_field ''avg_rating'' r =
     (case avg_rating (user_ratings r) of
        Inl e \<Rightarrow> None
      | Inr avg \<Rightarrow> Some (if num_gt_zero avg then CNum (num_round1 avg) else CStr ''N/A''))"
  by (simp add: csv_field_def csv_row_def Let_def split: sum.splits)

lemma csv_row_Inr_iff: "(\<exists>row. csv_row r = Inr row) \<longleftrightarrow> (\<exists>v. avg_rating (user_ratings r) = Inr v)"
  by (auto simp: csv_row_def Let_def split: sum.splits)

lemma csv_loop_written:
  "\<exists>rows. snd (csv_loop routes written) = written @ map RowLine rows \<and>
          (fst (csv_loop routes written) = None \<longrightarrow> map csv_row routes = map Inr rows)"
proof (induction routes arbitrary: written)
  case Nil
  then show ?case by simp
next
  case (Cons r routes)
  show ?case
  proof (cases "csv_row r")
    case (Inl e)
    then show ?thesis by simp
  next
    case (Inr row)
    from Cons [of "written @ [RowLine row]"] obtain rows where
      rows: "snd (csv_loop routes (written @ [RowLine row])) = (written @ [RowLine row]) @ map RowLine rows"
        "fst (csv_loop routes (written @ [RowLine row])) = None \<longrightarrow> map csv_row routes = map Inr rows"
      by (elim exE conjE)
    have "snd (csv_loop (r # routes) written) = written @ map RowLine (row # rows)"
      using Inr rows(1) by simp
    moreover have "fst (csv_loop (r # routes) written) = None \<longrightarrow>
                     map csv_row (r # routes) = map Inr (row # rows)"
      using Inr rows(2) by simp
    ultimately show ?thesis by (intro exI [of _ "row # rows"] conjI)
  qed
qed

lemma csv_loop_completes:
  "\<forall>r \<in> set routes. \<exists>row. csv_row r = Inr row \<Longrightarrow> fst (csv_loop routes written) = None"
  by (induction routes arbitrary: written) auto


lemma extract_user_ratings_positive:
  "\<forall>x \<in> set (extract_user_ratings soup). \<exists>n. stars x = Some n \<and> 0 < n"
  by (auto simp: extract_user_ratings_def ratings_loop_eq rating_data_def)

lemma scrape_route_ratings:
  "fst (scrape_route gp uj u w) = Some r \<Longrightarrow>
     \<exists>soup. user_ratings r = extract_user_ratings soup"
  by (auto simp: scrape_route_def Let_def split: prod.splits option.splits sum.splits)

lemma scrape_route_ratings_positive:
  assumes "fst (scrape_route gp uj u w) = Some r"
  shows "\<forall>x \<in> set (user_ratings r). \<exists>n. stars x = Some n \<and> 0 < n"
proof -
  from scrape_route_ratings [OF assms] obtain soup where
    "user_ratings r = extract_user_ratings soup" by (elim exE)
  then show ?thesis by (simp add: extract_user_ratings_positive)
qed

lemma attempts_scraped:
  "(u, Some r) \<in> set (attempts gp uj urls w) \<Longrightarrow> \<exists>w0. fst (scrape_route gp uj u w0) = Some r"
proof (induction urls arbitrary: w)
  case Nil
  then show ?case by simp
next
  case (Cons v urls)
  show ?case
  proof (cases "scrape_route gp uj v w")
    case (Pair x w')
    with Cons.prems have "(u, Some r) = (v, x) \<or> (u, Some r) \<in> set (attempts gp uj urls w')"
      by simp
    then show ?thesis
    proof
      assume "(u, Some r) = (v, x)"
      with Pair have "fst (scrape_route gp uj u w) = Some r" by simp
      then show ?thesis ..
    next
      assume "(u, Some r) \<in> set (attempts gp uj urls w')"
      then show ?thesis by (rule Cons.IH)
    qed
  qed
qed

lemma scrape_multiple_routes_scraped:
  assumes "r \<in> set (fst (scrape_multiple_routes gp uj urls w))"
  shows "\<exists>u w0. fst (scrape_route gp uj u w0) = Some r"
proof -
  from assms have "r \<in> set (List.map_filter snd (attempts gp uj urls w))"
    by (simp add: scrape_multiple_routes_def scrape_loop_eq)
  then obtain u where "(u, Some r) \<in> set (attempts gp uj urls w)"
    by (auto simp: List.map_filter_def)
  from attempts_scraped [OF this] show ?thesis by blast
qed

section \<open>The average rating in the CSV file\<close>

text \<open>
  Claim C2. For every route, the \<open>avg_rating\<close> of its row is the literal \<^verbatim>\<open>N/A\<close> when the
  ratings list is empty. When the list is not empty and every rating has stars greater than
  0, it is \<^verbatim>\<open>round(m, 1)\<close>, where \<open>m\<close> is the float mean of the stars; the ratings of every
  route that \<open>scrape_route\<close> returns, and so of every route in the output of
  \<open>scrape_multiple_routes\<close>, which is what the program saves, have such stars, because the
  ratings extractor emits no other. \<^verbatim>\<open>round(m, 1)\<close> is the float of a decimal with one digit
  after the point that is at most 0.05 away from \<open>m\<close>. The mean is a float whenever no stars
  value exceeds \<open>stars_bound\<close>. (The exporter tests the mean, not the list: a list whose mean
  is not greater than 0, which no extracted list is, gets \<^verbatim>\<open>N/A\<close> too.)
\<close>

theorem save_to_csv_avg_rating:
  "(user_ratings r = [] \<longrightarrow> csv_field ''avg_rating'' r = Some (CStr ''N/A'')) \<and>
   (user_ratings r \<noteq> [] \<and>
    truediv (stars_sum (user_ratings r)) (int (length (user_ratings r))) = Inr m \<longrightarrow>
      csv_field ''avg_rating'' r =
        Some (if gt_zero m then CNum (PyFloat (round1 m)) else CStr ''N/A'') \<and>
      ((\<forall>x \<in> set (user_ratings r). \<exists>n. stars x = Some n \<and> 0 < n) \<longrightarrow>
         csv_field ''avg_rating'' r = Some (CNum (PyFloat (round1 m))))) \<and>
   (0 < x \<longrightarrow>
      (\<exists>k. round1 (Finite x) = float_of_rat False (of_int k / 10) \<and>
           \<bar>of_int k / 10 - x\<bar> \<le> 1 / 20)) \<and>
   (user_ratings r \<noteq> [] \<and>
    (\<forall>x \<in> set (user_ratings r). \<forall>n. stars x = Some n \<longrightarrow> \<bar>n\<bar> \<le> stars_bound) \<longrightarrow>
      (\<exists>m. truediv (stars_sum (user_ratings r)) (int (length (user_ratings r))) = Inr m)) \<and>
   (fst (scrape_route gp uj u w) = Some r \<longrightarrow>
      (\<forall>x \<in> set (user_ratings r). \<exists>n. stars x = Some n \<and> 0 < n)) \<and>
   (r \<in> set (fst (scrape_multiple_routes gp uj urls w)) \<longrightarrow>
      (\<forall>x \<in> set (user_ratings r). \<exists>n. stars x = Some n \<and> 0 < n))"
proof (intro conjI impI)
  assume "user_ratings r = []"
  then show "csv_field ''avg_rating'' r = Some (CStr ''N/A'')"
    by (simp add: csv_field_avg_rating avg_rating_eq)
next
  assume h: "user_ratings r \<noteq> [] \<and>
    truediv (stars_sum (user_ratings r)) (int (length (user_ratings r))) = Inr m"
  then show c: "csv_field ''avg_rating'' r =
        Some (if gt_zero m then CNum (PyFloat (round1 m)) else CStr ''N/A'')"
    by (simp add: csv_field_avg_rating avg_rating_eq)
  assume "\<forall>x \<in> set (user_ratings r). \<exists>n. stars x = Some n \<and> 0 < n"
  then have le: "int (length (user_ratings r)) \<le> stars_sum (user_ratings r)"
    by (rule stars_sum_ge_length)
  have pos: "0 < int (length (user_ratings r))" using h by simp
  from h have t: "truediv (stars_sum (user_ratings r)) (int (length (user_ratings r))) = Inr m"
    by (rule conjunct2)
  have "gt_zero m"
    using pos le t by (rule truediv_ge_one)
  with c show "csv_field ''avg_rating'' r = Some (CNum (PyFloat (round1 m)))"
    by simp
next
  assume x: "0 < x"
  let ?k = "round_half_even (x * 10)"
  from x have ax: "\<bar>x\<bar> = x" and nx: "\<not> x < 0" by simp_all
  have r: "round1 (Finite x) = float_of_rat False (of_int ?k / 10)"
    by (simp only: round1.simps ax nx)
  have d: "\<bar>of_int ?k / 10 - x\<bar> \<le> 1 / 20"
  proof -
    from round_half_even_bounds [of "x * 10"]
    have b1: "of_int ?k - 1 / 2 \<le> x * 10" and b2: "x * 10 \<le> of_int ?k + 1 / 2"
      by (rule conjunct1, rule conjunct2)
    from b1 have u: "of_int ?k / 10 - x \<le> 1 / 20" by linarith
    from b2 have l: "- (of_int ?k / 10 - x) \<le> 1 / 20" by linarith
    from u l show ?thesis by (rule abs_leI)
  qed
  from r d show "\<exists>k. round1 (Finite x) = float_of_rat False (of_int k / 10) \<and>
           \<bar>of_int k / 10 - x\<bar> \<le> 1 / 20"
    by (intro exI [of _ ?k] conjI)
next
  assume h: "user_ratings r \<noteq> [] \<and>
    (\<forall>x \<in> set (user_ratings r). \<forall>n. stars x = Some n \<longrightarrow> \<bar>n\<bar> \<le> stars_bound)"
  then have ne: "user_ratings r \<noteq> []"
    by (rule conjunct1)
  from h have "\<forall>x \<in> set (user_ratings r). \<forall>n. stars x = Some n \<longrightarrow> \<bar>n\<bar> \<le> stars_bound"
    by (rule conjunct2)
  then have "\<exists>v. avg_rating (user_ratings r) = Inr v"
    unfolding stars_bound_def by (rule avg_rating_bounded)
  with ne show "\<exists>m. truediv (stars_sum (user_ratings r)) (int (length (user_ratings r))) = Inr m"
    by (cases "truediv (stars_sum (user_ratings r)) (int (length (user_ratings r)))")
       (simp_all add: avg_rating_eq)
next
  assume "fst (scrape_route gp uj u w) = Some r"
  then show "\<forall>x \<in> set (user_ratings r). \<exists>n. stars x = Some n \<and> 0 < n"
    by (rule scrape_route_ratings_positive)
next
  assume "r \<in> set (fst (scrape_multiple_routes gp uj urls w))"
  from scrape_multiple_routes_scraped [OF this] obtain v w0 where
    "fst (scrape_route gp uj v w0) = Some r" by (elim exE)
  then show "\<forall>x \<in> set (user_ratings r). \<exists>n. stars x = Some n \<and> 0 < n"
    by (rule scrape_route_ratings_positive)
qed

text \<open>A route with the ratings 3 and 5 gets 4.0; a route without ratings gets \<^verbatim>\<open>N/A\<close>; the
  route scraped from \<open>soup_ratings\<close> has the one rating with two stars, and gets 2.0.\<close>

theorem save_to_csv_avg_rating_witness:
  "map stars (user_ratings route_3_5) = [Some 3, Some 5] \<and>
   truediv (stars_sum (user_ratings route_3_5)) (int (length (user_ratings route_3_5)))
     = Inr (Finite 4) \<and>
   round1 (Finite 4) = Finite 4 \<and>
   csv_field ''avg_rating'' route_3_5 = Some (CNum (PyFloat (Finite 4))) \<and>
   user_ratings route_unrated = [] \<and>
   csv_field ''avg_rating'' route_unrated = Some (CStr ''N/A'') \<and>
   (\<exists>r. fst (scrape_multiple_routes fetch_ratings (urljoin (\<lambda>h. False))
                [''https://www.mountainproject.com/route/1/a''] 0) = [r] \<and>
        map stars (user_ratings r) = [Some 2] \<and>
        csv_field ''avg_rating'' r = Some (CNum (PyFloat (Finite 2))))"
proof -
  have a: "map stars (user_ratings route_3_5) = [Some 3, Some 5]"
    by code_simp
  have b: "truediv (stars_sum (user_ratings route_3_5)) (int (length (user_ratings route_3_5)))
     = Inr (Finite 4)"
    by code_simp
  have c: "round1 (Finite 4) = Finite 4"
    by code_simp
  have d: "user_ratings route_3_5 \<noteq> []"
    by (simp add: route_3_5_def)
  have e: "user_ratings route_unrated = []"
    by (simp add: route_unrated_def)
  have f: "\<forall>x \<in> set (user_ratings route_3_5). \<exists>n. stars x = Some n \<and> 0 < n"
    by (simp add: route_3_5_def)
  note t1 = save_to_csv_avg_rating
              [where r = route_3_5 and m = "Finite 4" and x = 1 and gp = fetch_ratings
                 and uj = "urljoin (\<lambda>h. False)" and u = "[]" and w = 0 and urls = "[]"]
  from t1 b d f
  have "csv_field ''avg_rating'' route_3_5 = Some (CNum (PyFloat (round1 (Finite 4))))"
    by blast
  with c have g: "csv_field ''avg_rating'' route_3_5 = Some (CNum (PyFloat (Finite 4)))"
    by simp
  note t2 = save_to_csv_avg_rating
              [where r = route_unrated and m = "Finite 4" and x = 1 and gp = fetch_ratings
                 and uj = "urljoin (\<lambda>h. False)" and u = "[]" and w = 0 and urls = "[]"]
  from t2 e
  have h: "csv_field ''avg_rating'' route_unrated = Some (CStr ''N/A'')"
    by blast
  let ?urls = "[''https://www.mountainproject.com/route/1/a'']"
  let ?out = "fst (scrape_multiple_routes fetch_ratings (urljoin (\<lambda>h. False)) ?urls 0)"
  have i: "map (\<lambda>r. map stars (user_ratings r)) ?out = [[Some 2]]"
    by code_simp
  then obtain rt where rt: "?out = [rt]" and s: "map stars (user_ratings rt) = [Some 2]"
    by (cases ?out) auto
  from s have ne: "user_ratings rt \<noteq> []" by auto
  from s have sum: "stars_sum (user_ratings rt) = 2" and len: "length (user_ratings rt) = 1"
    by (auto simp: stars_sum_def map_eq_Cons_conv)
  have "truediv 2 1 = Inr (Finite 2)" by code_simp
  with sum len have dv: "truediv (stars_sum (user_ratings rt)) (int (length (user_ratings rt)))
     = Inr (Finite 2)"
    by simp
  have c2: "round1 (Finite 2) = Finite 2"
    by code_simp
  from rt have mem: "rt \<in> set ?out" by simp
  note t3 = save_to_csv_avg_rating
              [where r = rt and m = "Finite 2" and x = 1 and gp = fetch_ratings
                 and uj = "urljoin (\<lambda>h. False)" and u = "[]" and w = 0 and urls = ?urls]
  from t3 mem have inv: "\<forall>x \<in> set (user_ratings rt). \<exists>n. stars x = Some n \<and> 0 < n"
    by blast
  from t3 ne dv inv
  have "csv_field ''avg_rating'' rt = Some (CNum (PyFloat (round1 (Finite 2))))"
    by blast
  with c2 have "csv_field ''avg_rating'' rt = Some (CNum (PyFloat (Finite 2)))"
    by simp
  with rt s have j: "\<exists>r. ?out = [r] \<and> map stars (user_ratings r) = [Some 2] \<and>
        csv_field ''avg_rating'' r = Some (CNum (PyFloat (Finite 2)))"
    by (intro exI [of _ rt] conjI)
  show ?thesis
    using a b c g e h j by (intro conjI)
qed

section \<open>An empty route list writes nothing\<close>

text \<open>
  Claim C10. With an empty route list \<open>save_to_csv\<close> returns at once and the file system is
  as it was: no file is created and no header row is written. With a non-empty list the
  file holds the header row and then the rows written, and other files are untouched; when
  the call completes, the rows are those of the routes, one per route in order; and the
  call completes whenever no stars value exceeds \<open>stars_bound\<close>, that is \<open>2 ^ 1023\<close>, in magnitude (a larger mean
  can be too large for a float, and the division then raises \<^verbatim>\<open>OverflowError\<close>).
\<close>

theorem save_to_csv_empty_writes_nothing:
  "save_to_csv [] filename fs = (None, fs) \<and>
   (routes \<noteq> [] \<longrightarrow>
      (\<exists>rows. snd (save_to_csv routes filename fs) =
                 fs(filename \<mapsto> HeaderLine fieldnames # map RowLine rows) \<and>
              (fst (save_to_csv routes filename fs) = None \<longrightarrow>
                 map csv_row routes = map Inr rows \<and> length rows = length routes)) \<and>
      ((\<forall>r \<in> set routes. \<forall>x \<in> set (user_ratings r). \<forall>n. stars x = Some n \<longrightarrow> \<bar>n\<bar> \<le> stars_bound)
         \<longrightarrow> fst (save_to_csv routes filename fs) = None))"
proof (intro conjI impI)
  show "save_to_csv [] filename fs = (None, fs)"
    by (simp add: save_to_csv_def)
next
  assume ne: "routes \<noteq> []"
  from csv_loop_written [of routes "[HeaderLine fieldnames]"] obtain rows where
    rows: "snd (csv_loop routes [HeaderLine fieldnames]) = [HeaderLine fieldnames] @ map RowLine rows"
      "fst (csv_loop routes [HeaderLine fieldnames]) = None \<longrightarrow> map csv_row routes = map Inr rows"
    by (elim exE conjE)
  have s: "snd (save_to_csv routes filename fs) =
             fs(filename \<mapsto> HeaderLine fieldnames # map RowLine rows)"
    using ne rows(1)
    by (cases "csv_loop routes [HeaderLine fieldnames]") (simp add: save_to_csv_def)
  have f: "fst (save_to_csv routes filename fs) = fst (csv_loop routes [HeaderLine fieldnames])"
    using ne
    by (cases "csv_loop routes [HeaderLine fieldnames]") (simp add: save_to_csv_def)
  have "fst (save_to_csv routes filename fs) = None \<longrightarrow>
          map csv_row routes = map Inr rows \<and> length rows = length routes"
  proof
    assume "fst (save_to_csv routes filename fs) = None"
    with f rows(2) have m: "map csv_row routes = map Inr rows" by simp
    then have "length (map csv_row routes) = length (map Inr rows :: (error + (string \<times> cell) list) list)"
      by simp
    then have "length rows = length routes" by simp
    with m show "map csv_row routes = map Inr rows \<and> length rows = length routes" ..
  qed
  with s show "\<exists>rows. snd (save_to_csv routes filename fs) =
                 fs(filename \<mapsto> HeaderLine fieldnames # map RowLine rows) \<and>
              (fst (save_to_csv routes filename fs) = None \<longrightarrow>
                 map csv_row routes = map Inr rows \<and> length rows = length routes)"
    by (intro exI [of _ rows] conjI)
next
  assume ne: "routes \<noteq> []"
  assume b: "\<forall>r \<in> set routes. \<forall>x \<in> set (user_ratings r). \<forall>n. stars x = Some n \<longrightarrow> \<bar>n\<bar> \<le> stars_bound"
  have "\<forall>r \<in> set routes. \<exists>row. csv_row r = Inr row"
  proof
    fix r assume "r \<in> set routes"
    with b have "\<forall>x \<in> set (user_ratings r). \<forall>n. stars x = Some n \<longrightarrow> \<bar>n\<bar> \<le> stars_bound"
      by (rule bspec)
    then have "\<exists>v. avg_rating (user_ratings r) = Inr v"
      unfolding stars_bound_def by (rule avg_rating_bounded)
    then show "\<exists>row. csv_row r = Inr row"
      by (simp add: csv_row_Inr_iff)
  qed
  then have "fst (csv_loop routes [HeaderLine fieldnames]) = None"
    by (rule csv_loop_completes)
  with ne show "fst (save_to_csv routes filename fs) = None"
    by (cases "csv_loop routes [HeaderLine fieldnames]") (simp add: save_to_csv_def)
qed

text \<open>Saving no route leaves the empty file system empty; saving two routes creates the
  file with three lines.\<close>

theorem save_to_csv_empty_writes_nothing_witness:
  "save_to_csv [] ''routes.csv'' Map.empty = (None, Map.empty) \<and>
   fst (save_to_csv [route_3_5, route_unrated] ''routes.csv'' Map.empty) = None \<and>
   map_option length (snd (save_to_csv [route_3_5, route_unrated] ''routes.csv'' Map.empty)
                        ''routes.csv'') = Some 3 \<and>
   map_option hd (snd (save_to_csv [route_3_5, route_unrated] ''routes.csv'' Map.empty)
                    ''routes.csv'') = Some (HeaderLine fieldnames)"
proof -
  let ?routes = "[route_3_5, route_unrated]"
  note t = save_to_csv_empty_writes_nothing [of "''routes.csv''" Map.empty ?routes]
  from t have a: "save_to_csv [] ''routes.csv'' Map.empty = (None, Map.empty)"
    by (rule conjunct1)
  have ne: "?routes \<noteq> []" by simp
  have b: "\<forall>r \<in> set ?routes. \<forall>x \<in> set (user_ratings r). \<forall>n. stars x = Some n \<longrightarrow> \<bar>n\<bar> \<le> stars_bound"
    by (auto simp: route_3_5_def route_unrated_def stars_bound_def)
  from t ne b have c: "fst (save_to_csv ?routes ''routes.csv'' Map.empty) = None"
    by blast
  from t ne c obtain rows where
    rows: "snd (save_to_csv ?routes ''routes.csv'' Map.empty) =
             Map.empty(''routes.csv'' \<mapsto> HeaderLine fieldnames # map RowLine rows)"
      "length rows = length ?routes"
    by blast
  from rows have d: "map_option length (snd (save_to_csv ?routes ''routes.csv'' Map.empty)
                        ''routes.csv'') = Some 3"
    by simp
  from rows have e: "map_option hd (snd (save_to_csv ?routes ''routes.csv'' Map.empty)
                    ''routes.csv'') = Some (HeaderLine fieldnames)"
    by simp
  show ?thesis
    using a c d e by (intro conjI)
qed

end
